theory Spec2Isabelle
  imports Complex_Main "HOL-Library.AList" "HOL-Library.Log_Nat"
begin

section \<open>JavaScript values\<close>

text \<open>
  A JavaScript number is an IEEE 754 binary64 value: a finite value, one of the two
  infinities, or NaN. A finite value is the real number it denotes, and every
  arithmetic result is rounded to binary64. The two zeros are one value: no
  operation of the program tells them apart.
\<close>

datatype jsnum = Fin real | PosInf | NegInf | NaN

subsection \<open>Rounding to binary64\<close>

text \<open>The nearest integer, a tie going to the even one.\<close>

definition round_half_even :: "real \<Rightarrow> int" where
  "round_half_even q =
     (let f = \<lfloor>q\<rfloor>; d = q - of_int f
      in if d < 1 / 2 then f else if 1 / 2 < d then f + 1 else if even f then f else f + 1)"

text \<open>
  The exponent \<open>e\<close> of a non-zero real, \<open>2 ^ e \<le> |x| < 2 ^ (e + 1)\<close>, read off the
  bit length of an integer next to \<open>|x|\<close> or to its inverse.
\<close>

definition binary_exponent :: "real \<Rightarrow> int" where
  "binary_exponent x =
     (if 1 \<le> \<bar>x\<bar> then bitlen \<lfloor>\<bar>x\<bar>\<rfloor> - 1 else - bitlen (\<lceil>1 / \<bar>x\<bar>\<rceil> - 1))"

text \<open>
  Binary64 has 53 significant bits and exponents from -1022; below that the spacing
  stays \<open>2 ^ - 1074\<close>. \<open>ulp64 x\<close> is the spacing of the binary64 values around \<open>x\<close>.
\<close>

definition exponent64 :: "real \<Rightarrow> int" where
  "exponent64 x = max (binary_exponent x) (- 1022)"

definition ulp64 :: "real \<Rightarrow> real" where
  "ulp64 x = 2 powi (exponent64 x - 52)"

text \<open>
  Round to nearest, ties to even: the multiple of the spacing nearest to \<open>x\<close>, and
  an infinity when that reaches \<open>2 ^ 1024\<close>.
\<close>

definition round64 :: "real \<Rightarrow> jsnum" where
  "round64 x =
     (if x = 0 then Fin 0
      else
        let r = of_int (round_half_even (x / ulp64 x)) * ulp64 x
        in if 2 ^ 1024 \<le> \<bar>r\<bar> then (if 0 < x then PosInf else NegInf) else Fin r)"

text \<open>
  The value of a decimal number literal of the source, such as \<open>0.1\<close> or \<open>32.9750\<close>:
  the binary64 value nearest to it. Integer literals such as \<open>3\<close> or \<open>180\<close> are
  exact and written \<open>Fin 3\<close>.
\<close>

definition literal :: "real \<Rightarrow> jsnum" where
  "literal x = round64 x"

text \<open>
  The values that \<open>response.json()\<close> can produce. An object is the list of its own
  properties; the first binding of a key is the one a read sees.
\<close>

datatype jsval =
    JUndefined
  | JNull
  | JBool bool
  | JNum jsnum
  | JStr string
  | JArr "jsval list"
  | JObj "(string \<times> jsval) list"

datatype js_error = TypeError

subsection \<open>Numbers\<close>

definition isNaN :: "jsnum \<Rightarrow> bool" where
  "isNaN a = (a = NaN)"

text \<open>\<open>a < b\<close> on numbers: false as soon as one side is NaN.\<close>

fun js_lt :: "jsnum \<Rightarrow> jsnum \<Rightarrow> bool" where
  "js_lt NaN b = False"
| "js_lt a NaN = False"
| "js_lt (Fin a) (Fin b) = (a < b)"
| "js_lt a NegInf = False"
| "js_lt NegInf b = True"
| "js_lt PosInf b = False"
| "js_lt a PosInf = True"

definition js_gt :: "jsnum \<Rightarrow> jsnum \<Rightarrow> bool" where
  "js_gt a b = js_lt b a"

definition js_le :: "jsnum \<Rightarrow> jsnum \<Rightarrow> bool" where
  "js_le a b = (\<not> isNaN a \<and> \<not> isNaN b \<and> \<not> js_lt b a)"

definition js_ge :: "jsnum \<Rightarrow> jsnum \<Rightarrow> bool" where
  "js_ge a b = js_le b a"

text \<open>\<open>a === b\<close> on numbers: NaN is not equal to itself.\<close>

definition num_eq :: "jsnum \<Rightarrow> jsnum \<Rightarrow> bool" where
  "num_eq a b = (\<not> isNaN a \<and> a = b)"

definition Math_min :: "jsnum \<Rightarrow> jsnum \<Rightarrow> jsnum" where
  "Math_min a b = (if isNaN a \<or> isNaN b then NaN else if js_lt b a then b else a)"

definition Math_max :: "jsnum \<Rightarrow> jsnum \<Rightarrow> jsnum" where
  "Math_max a b = (if isNaN a \<or> isNaN b then NaN else if js_lt a b then b else a)"

fun js_neg :: "jsnum \<Rightarrow> jsnum" where
  "js_neg (Fin a) = Fin (- a)"
| "js_neg PosInf = NegInf"
| "js_neg NegInf = PosInf"
| "js_neg NaN = NaN"

fun js_add :: "jsnum \<Rightarrow> jsnum \<Rightarrow> jsnum" where
  "js_add NaN b = NaN"
| "js_add a NaN = NaN"
| "js_add (Fin a) (Fin b) = round64 (a + b)"
| "js_add PosInf NegInf = NaN"
| "js_add NegInf PosInf = NaN"
| "js_add PosInf b = PosInf"
| "js_add a PosInf = PosInf"
| "js_add NegInf b = NegInf"
| "js_add a NegInf = NegInf"

definition js_sub :: "jsnum \<Rightarrow> jsnum \<Rightarrow> jsnum" where
  "js_sub a b = js_add a (js_neg b)"

text \<open>Division; a zero divisor is the positive zero, the only zero of the model.\<close>

fun js_div :: "jsnum \<Rightarrow> jsnum \<Rightarrow> jsnum" where
  "js_div NaN b = NaN"
| "js_div a NaN = NaN"
| "js_div (Fin a) (Fin b) =
     (if b = 0 then (if a = 0 then NaN else if 0 < a then PosInf else NegInf)
      else round64 (a / b))"
| "js_div (Fin a) b = Fin 0"
| "js_div PosInf (Fin b) = (if b < 0 then NegInf else PosInf)"
| "js_div NegInf (Fin b) = (if b < 0 then PosInf else NegInf)"
| "js_div a b = NaN"

subsection \<open>Truthiness, property reads, iteration\<close>

definition truthy :: "jsval \<Rightarrow> bool" where
  "truthy v =
     (case v of
        JUndefined \<Rightarrow> False
      | JNull \<Rightarrow> False
      | JBool b \<Rightarrow> b
      | JNum n \<Rightarrow> \<not> isNaN n \<and> n \<noteq> Fin 0
      | JStr s \<Rightarrow> s \<noteq> []
      | JArr xs \<Rightarrow> True
      | JObj ps \<Rightarrow> True)"

text \<open>
  The value of \<open>v.k\<close> when \<open>v\<close> is neither null nor undefined. Besides own properties
  only \<open>length\<close> of arrays and strings is modelled: the program reads no index key
  and no other inherited property as data.
\<close>

definition field :: "jsval \<Rightarrow> string \<Rightarrow> jsval" where
  "field v k =
     (case v of
        JObj ps \<Rightarrow> (case map_of ps k of Some x \<Rightarrow> x | None \<Rightarrow> JUndefined)
      | JArr xs \<Rightarrow> (if k = ''length'' then JNum (Fin (real (length xs))) else JUndefined)
      | JStr s \<Rightarrow> (if k = ''length'' then JNum (Fin (real (length s))) else JUndefined)
      | _ \<Rightarrow> JUndefined)"

definition nullish :: "jsval \<Rightarrow> bool" where
  "nullish v = (v = JUndefined \<or> v = JNull)"

text \<open>\<open>v.k\<close>: reading a property of null or undefined throws.\<close>

definition get_prop :: "jsval \<Rightarrow> string \<Rightarrow> js_error + jsval" where
  "get_prop v k = (if nullish v then Inl TypeError else Inr (field v k))"

text \<open>\<open>v === n\<close> for a number literal \<open>n\<close>.\<close>

definition strict_eq_num :: "jsval \<Rightarrow> jsnum \<Rightarrow> bool" where
  "strict_eq_num v n = (case v of JNum m \<Rightarrow> num_eq m n | _ \<Rightarrow> False)"

text \<open>
  \<open>Array.prototype.forEach\<close> with a callback that updates the variables of the
  enclosing function, here the state \<open>s\<close>; an exception in the callback ends the loop.
\<close>

fun forEach :: "'a list \<Rightarrow> ('s \<Rightarrow> 'a \<Rightarrow> js_error + 's) \<Rightarrow> 's \<Rightarrow> js_error + 's" where
  "forEach [] f s = Inr s"
| "forEach (x # xs) f s = (case f s x of Inl e \<Rightarrow> Inl e | Inr s' \<Rightarrow> forEach xs f s')"

text \<open>
  \<open>v.forEach(f)\<close>: only arrays have the method (parsed JSON holds no function), any
  other value throws.
\<close>

definition array_forEach :: "jsval \<Rightarrow> ('s \<Rightarrow> jsval \<Rightarrow> js_error + 's) \<Rightarrow> 's \<Rightarrow> js_error + 's" where
  "array_forEach v f s = (case v of JArr xs \<Rightarrow> forEach xs f s | _ \<Rightarrow> Inl TypeError)"

text \<open>
  The elements an array destructuring pattern draws from \<open>v\<close>: arrays and strings are
  iterable, nothing else among these values is.
\<close>

definition iterate :: "jsval \<Rightarrow> js_error + jsval list" where
  "iterate v =
     (case v of
        JArr xs \<Rightarrow> Inr xs
      | JStr s \<Rightarrow> Inr (map (\<lambda>c. JStr [c]) s)
      | _ \<Rightarrow> Inl TypeError)"

definition nth_or_undefined :: "jsval list \<Rightarrow> nat \<Rightarrow> jsval" where
  "nth_or_undefined xs i = (if i < length xs then xs ! i else JUndefined)"

section \<open>calculateBounds (the Mapbox version of the dashboard)\<close>

record extent =
  minLat :: jsnum
  maxLat :: jsnum
  minLng :: jsnum
  maxLng :: jsnum

record bounds_acc = extent +
  hasValidCoords :: bool

record view_bounds =
  longitude :: jsnum
  latitude :: jsnum
  zoom :: int

definition init_acc :: bounds_acc where
  "init_acc = \<lparr>minLat = PosInf, maxLat = NegInf, minLng = PosInf, maxLng = NegInf,
                hasValidCoords = False\<rparr>"

definition default_view :: view_bounds where
  "default_view = \<lparr>longitude = literal (- 96.7970), latitude = literal 32.9750, zoom = 9\<rparr>"

text \<open>The body of the innermost callback, \<open>coord => { const [lng, lat] = coord; ... }\<close>.\<close>

definition visit_coord :: "bounds_acc \<Rightarrow> jsval \<Rightarrow> js_error + bounds_acc" where
  "visit_coord acc coord =
     (case iterate coord of
        Inl e \<Rightarrow> Inl e
      | Inr parts \<Rightarrow>
          (case (nth_or_undefined parts 0, nth_or_undefined parts 1) of
             (JNum lng, JNum lat) \<Rightarrow>
               if \<not> isNaN lng \<and> \<not> isNaN lat \<and>
                  js_ge lng (Fin (- 180)) \<and> js_le lng (Fin 180) \<and>
                  js_ge lat (Fin (- 90)) \<and> js_le lat (Fin 90)
               then Inr (acc\<lparr>minLat := Math_min (minLat acc) lat,
                             maxLat := Math_max (maxLat acc) lat,
                             minLng := Math_min (minLng acc) lng,
                             maxLng := Math_max (maxLng acc) lng,
                             hasValidCoords := True\<rparr>)
               else Inr acc
           | _ \<Rightarrow> Inr acc))"

definition visit_ring :: "bounds_acc \<Rightarrow> jsval \<Rightarrow> js_error + bounds_acc" where
  "visit_ring acc ring = array_forEach ring visit_coord acc"

definition visit_feature :: "bounds_acc \<Rightarrow> jsval \<Rightarrow> js_error + bounds_acc" where
  "visit_feature acc feature =
     (case get_prop feature ''geometry'' of
        Inl e \<Rightarrow> Inl e
      | Inr geometry \<Rightarrow>
          if truthy geometry \<and> truthy (field geometry ''coordinates'')
          then array_forEach (field geometry ''coordinates'') visit_ring acc
          else Inr acc)"

text \<open>The ladder of \<open>if (maxDiff > 3) zoom = 7; else if ... else zoom = 14\<close>.\<close>

definition zoomLevel :: "jsnum \<Rightarrow> int" where
  "zoomLevel maxDiff =
     (if js_gt maxDiff (Fin 3) then 7
      else if js_gt maxDiff (Fin 2) then 8
      else if js_gt maxDiff (Fin 1) then 9
      else if js_gt maxDiff (literal 0.5) then 10
      else if js_gt maxDiff (literal 0.2) then 11
      else if js_gt maxDiff (literal 0.1) then 12
      else if js_gt maxDiff (literal 0.05) then 13
      else 14)"

text \<open>What follows the loop: the fallback test, then center and zoom.\<close>

definition view_of_acc :: "bounds_acc \<Rightarrow> view_bounds" where
  "view_of_acc acc =
     (if \<not> hasValidCoords acc \<or> num_eq (minLat acc) PosInf \<or> num_eq (maxLat acc) NegInf \<or>
         num_eq (minLng acc) PosInf \<or> num_eq (maxLng acc) NegInf
      then default_view
      else
        let centerLat = js_div (js_add (minLat acc) (maxLat acc)) (Fin 2);
            centerLng = js_div (js_add (minLng acc) (maxLng acc)) (Fin 2);
            latDiff = js_sub (maxLat acc) (minLat acc);
            lngDiff = js_sub (maxLng acc) (minLng acc);
            maxDiff = Math_max latDiff lngDiff
        in \<lparr>longitude = centerLng, latitude = centerLat, zoom = zoomLevel maxDiff\<rparr>)"

text \<open>
  The function itself. \<open>Inl\<close> is a thrown exception, \<open>Inr None\<close> the value \<open>null\<close>,
  \<open>Inr (Some v)\<close> the returned object.
\<close>

definition calculateBounds :: "jsval \<Rightarrow> js_error + view_bounds option" where
  "calculateBounds features =
     (if \<not> truthy features \<or> strict_eq_num (field features ''length'') (Fin 0) then Inr None
      else
        (case array_forEach features visit_feature init_acc of
           Inl e \<Rightarrow> Inl e
         | Inr acc \<Rightarrow> Inr (Some (view_of_acc acc))))"

section \<open>calculateBounds (the Leaflet version of the dashboard)\<close>

text \<open>
  The earlier version has no validity test: \<open>Math.min\<close> and \<open>Math.max\<close> receive
  whatever the coordinate holds and convert it to a number. The conversion of strings,
  arrays and objects belongs to the runtime and is the parameter \<open>coerce\<close>.
\<close>

definition ToNumber :: "(jsval \<Rightarrow> jsnum) \<Rightarrow> jsval \<Rightarrow> jsnum" where
  "ToNumber coerce v =
     (case v of
        JNum n \<Rightarrow> n
      | JUndefined \<Rightarrow> NaN
      | JNull \<Rightarrow> Fin 0
      | JBool b \<Rightarrow> (if b then Fin 1 else Fin 0)
      | _ \<Rightarrow> coerce v)"

text \<open>The returned object \<open>{ center: [centerLat, centerLng], zoom: zoom }\<close>.\<close>

record leaflet_view =
  center :: "jsnum \<times> jsnum"
  leaflet_zoom :: int

definition init_extent :: extent where
  "init_extent = \<lparr>minLat = PosInf, maxLat = NegInf, minLng = PosInf, maxLng = NegInf\<rparr>"

definition visit_coord_leaflet :: "(jsval \<Rightarrow> jsnum) \<Rightarrow> extent \<Rightarrow> jsval \<Rightarrow> js_error + extent" where
  "visit_coord_leaflet coerce ext coord =
     (case iterate coord of
        Inl e \<Rightarrow> Inl e
      | Inr parts \<Rightarrow>
          let lng = nth_or_undefined parts 0; lat = nth_or_undefined parts 1
          in Inr (ext\<lparr>minLat := Math_min (minLat ext) (ToNumber coerce lat),
                      maxLat := Math_max (maxLat ext) (ToNumber coerce lat),
                      minLng := Math_min (minLng ext) (ToNumber coerce lng),
                      maxLng := Math_max (maxLng ext) (ToNumber coerce lng)\<rparr>))"

definition visit_ring_leaflet :: "(jsval \<Rightarrow> jsnum) \<Rightarrow> extent \<Rightarrow> jsval \<Rightarrow> js_error + extent" where
  "visit_ring_leaflet coerce ext ring = array_forEach ring (visit_coord_leaflet coerce) ext"

definition visit_feature_leaflet :: "(jsval \<Rightarrow> jsnum) \<Rightarrow> extent \<Rightarrow> jsval \<Rightarrow> js_error + extent" where
  "visit_feature_leaflet coerce ext feature =
     (case get_prop feature ''geometry'' of
        Inl e \<Rightarrow> Inl e
      | Inr geometry \<Rightarrow>
          if truthy geometry \<and> truthy (field geometry ''coordinates'')
          then array_forEach (field geometry ''coordinates'') (visit_ring_leaflet coerce) ext
          else Inr ext)"

definition view_of_extent :: "extent \<Rightarrow> leaflet_view" where
  "view_of_extent ext =
     (let centerLat = js_div (js_add (minLat ext) (maxLat ext)) (Fin 2);
          centerLng = js_div (js_add (minLng ext) (maxLng ext)) (Fin 2);
          latDiff = js_sub (maxLat ext) (minLat ext);
          lngDiff = js_sub (maxLng ext) (minLng ext);
          maxDiff = Math_max latDiff lngDiff
      in \<lparr>center = (centerLat, centerLng), leaflet_zoom = zoomLevel maxDiff\<rparr>)"

definition calculateBounds_leaflet :: "(jsval \<Rightarrow> jsnum) \<Rightarrow> jsval \<Rightarrow> js_error + leaflet_view option" where
  "calculateBounds_leaflet coerce features =
     (if \<not> truthy features \<or> strict_eq_num (field features ''length'') (Fin 0) then Inr None
      else
        (case array_forEach features (visit_feature_leaflet coerce) init_extent of
           Inl e \<Rightarrow> Inl e
         | Inr ext \<Rightarrow> Inr (Some (view_of_extent ext))))"

section \<open>Dashboard: the handler of the loaded GeoJSON\<close>

text \<open>
  The part of the component state the handler writes. Both versions of the dashboard
  run the same steps and differ in the bounds function and in the type of the view,
  which are the parameters here.
\<close>

record 'v dashboard =
  mapView :: 'v
  geoJsonData :: jsval

text \<open>The filter callback \<open>feature.properties && feature.properties.last_edited\<close>.\<close>

definition keep_feature :: "jsval \<Rightarrow> js_error + jsval" where
  "keep_feature feature =
     (case get_prop feature ''properties'' of
        Inl e \<Rightarrow> Inl e
      | Inr properties \<Rightarrow>
          Inr (if truthy properties then field properties ''last_edited'' else properties))"

fun js_filter :: "jsval list \<Rightarrow> (jsval \<Rightarrow> js_error + jsval) \<Rightarrow> js_error + jsval list" where
  "js_filter [] f = Inr []"
| "js_filter (x # xs) f =
     (case f x of
        Inl e \<Rightarrow> Inl e
      | Inr r \<Rightarrow>
          (case js_filter xs f of
             Inl e \<Rightarrow> Inl e
           | Inr ys \<Rightarrow> Inr (if truthy r then x # ys else ys)))"

definition array_filter :: "jsval \<Rightarrow> (jsval \<Rightarrow> js_error + jsval) \<Rightarrow> js_error + jsval" where
  "array_filter v f =
     (case v of
        JArr xs \<Rightarrow> (case js_filter xs f of Inl e \<Rightarrow> Inl e | Inr ys \<Rightarrow> Inr (JArr ys))
      | _ \<Rightarrow> Inl TypeError)"

text \<open>
  The object literal \<open>{ ...data, features: x }\<close>. It is built only when \<open>data\<close> is an
  object: for any other value \<open>data.features.filter\<close> has thrown before.
\<close>

definition spread_with :: "jsval \<Rightarrow> string \<Rightarrow> jsval \<Rightarrow> jsval" where
  "spread_with data k x =
     (case data of
        JObj ps \<Rightarrow> JObj (AList.update k x ps)
      | _ \<Rightarrow> JObj [(k, x)])"

text \<open>
  The \<open>then\<close> callback of the fetch. An exception anywhere in it reaches the \<open>catch\<close>
  callback, which only logs: the state stays as it was. The \<open>console.log\<close> calls write
  no state and throw nothing the later steps would not throw.
\<close>

definition geojson_loaded ::
  "(jsval \<Rightarrow> js_error + 'v option) \<Rightarrow> jsval \<Rightarrow> 'v dashboard \<Rightarrow> 'v dashboard" where
  "geojson_loaded bounds data st =
     (case get_prop data ''features'' of
        Inl e \<Rightarrow> st
      | Inr features \<Rightarrow>
          (case array_filter features keep_feature of
             Inl e \<Rightarrow> st
           | Inr kept \<Rightarrow>
               let filteredData = spread_with data ''features'' kept
               in (case bounds (field filteredData ''features'') of
                     Inl e \<Rightarrow> st
                   | Inr None \<Rightarrow> st\<lparr>geoJsonData := filteredData\<rparr>
                   | Inr (Some mv) \<Rightarrow> st\<lparr>mapView := mv, geoJsonData := filteredData\<rparr>)))"

text \<open>The state of the Mapbox dashboard before the file has arrived.\<close>

definition initial_dashboard :: "view_bounds dashboard" where
  "initial_dashboard =
     \<lparr>mapView = \<lparr>longitude = literal (- 96.7970), latitude = literal 32.9750, zoom = 9\<rparr>,
      geoJsonData = JNull\<rparr>"

section \<open>The input as the specification describes it\<close>

text \<open>
  A feature sequence is an array of features; a feature has a geometry whose
  coordinates are rings, a ring is a sequence of coordinate pairs. The predicates
  below say how much of that shape the loops rely on: the three \<open>forEach\<close> calls
  need arrays and the destructuring needs something iterable. A missing (falsy)
  geometry or coordinates value is part of the shape, and the components of a pair
  may be any value.
\<close>

definition elems :: "jsval \<Rightarrow> jsval list" where
  "elems v = (case v of JArr xs \<Rightarrow> xs | _ \<Rightarrow> [])"

definition is_array :: "jsval \<Rightarrow> bool" where
  "is_array v = (case v of JArr xs \<Rightarrow> True | _ \<Rightarrow> False)"

definition iterable :: "jsval \<Rightarrow> bool" where
  "iterable v = (case v of JArr xs \<Rightarrow> True | JStr s \<Rightarrow> True | _ \<Rightarrow> False)"

definition wf_ring :: "jsval \<Rightarrow> bool" where
  "wf_ring r = (is_array r \<and> list_all iterable (elems r))"

definition has_coordinates :: "jsval \<Rightarrow> bool" where
  "has_coordinates f =
     (truthy (field f ''geometry'') \<and> truthy (field (field f ''geometry'') ''coordinates''))"

definition rings_of :: "jsval \<Rightarrow> jsval" where
  "rings_of f = field (field f ''geometry'') ''coordinates''"

definition wf_feature :: "jsval \<Rightarrow> bool" where
  "wf_feature f =
     (\<not> nullish f \<and>
      (if has_coordinates f
       then is_array (rings_of f) \<and> list_all wf_ring (elems (rings_of f))
       else True))"

text \<open>All coordinate entries of a feature and of a feature sequence, in scan order.\<close>

definition feature_coords :: "jsval \<Rightarrow> jsval list" where
  "feature_coords f =
     (if has_coordinates f then concat (map elems (elems (rings_of f))) else [])"

definition all_coords :: "jsval list \<Rightarrow> jsval list" where
  "all_coords fs = concat (map feature_coords fs)"

text \<open>
  A coordinate pair is valid when both components are finite numbers, the longitude
  lies in [-180, 180] and the latitude in [-90, 90]; \<open>coord_point\<close> is the pair
  (longitude, latitude) of a valid entry.
\<close>

definition coord_point :: "jsval \<Rightarrow> (real \<times> real) option" where
  "coord_point c =
     (case c of
        JArr (JNum (Fin lng) # JNum (Fin lat) # rest) \<Rightarrow>
          if - 180 \<le> lng \<and> lng \<le> 180 \<and> - 90 \<le> lat \<and> lat \<le> 90 then Some (lng, lat) else None
      | _ \<Rightarrow> None)"

definition valid_coord :: "jsval \<Rightarrow> bool" where
  "valid_coord c = (coord_point c \<noteq> None)"

definition valid_points :: "jsval list \<Rightarrow> (real \<times> real) list" where
  "valid_points fs = List.map_filter coord_point (all_coords fs)"

text \<open>The extent of a non-empty list of points.\<close>

definition min_lat :: "(real \<times> real) list \<Rightarrow> real" where
  "min_lat ps = Min (set (map snd ps))"

definition max_lat :: "(real \<times> real) list \<Rightarrow> real" where
  "max_lat ps = Max (set (map snd ps))"

definition min_lng :: "(real \<times> real) list \<Rightarrow> real" where
  "min_lng ps = Min (set (map fst ps))"

definition max_lng :: "(real \<times> real) list \<Rightarrow> real" where
  "max_lng ps = Max (set (map fst ps))"

text \<open>
  The spans and the spread of the points as the program computes them: differences
  of binary64 values, rounded, and the larger of the two.
\<close>

definition lat_span :: "(real \<times> real) list \<Rightarrow> jsnum" where
  "lat_span ps = js_sub (Fin (max_lat ps)) (Fin (min_lat ps))"

definition lng_span :: "(real \<times> real) list \<Rightarrow> jsnum" where
  "lng_span ps = js_sub (Fin (max_lng ps)) (Fin (min_lng ps))"

definition spread :: "(real \<times> real) list \<Rightarrow> jsnum" where
  "spread ps = Math_max (lat_span ps) (lng_span ps)"

text \<open>One accumulation step on a valid point, as the guarded branch performs it.\<close>

definition add_point :: "real \<times> real \<Rightarrow> bounds_acc \<Rightarrow> bounds_acc" where
  "add_point p acc =
     acc\<lparr>minLat := Math_min (minLat acc) (Fin (snd p)),
         maxLat := Math_max (maxLat acc) (Fin (snd p)),
         minLng := Math_min (minLng acc) (Fin (fst p)),
         maxLng := Math_max (maxLng acc) (Fin (fst p)),
         hasValidCoords := True\<rparr>"

text \<open>The batch with every invalid coordinate pair removed from its rings.\<close>

definition set_field :: "jsval \<Rightarrow> string \<Rightarrow> jsval \<Rightarrow> jsval" where
  "set_field v k x = (case v of JObj ps \<Rightarrow> JObj (AList.update k x ps) | _ \<Rightarrow> v)"

definition drop_invalid_ring :: "jsval \<Rightarrow> jsval" where
  "drop_invalid_ring r = (case r of JArr cs \<Rightarrow> JArr (filter valid_coord cs) | _ \<Rightarrow> r)"

definition drop_invalid :: "jsval \<Rightarrow> jsval" where
  "drop_invalid f =
     (if has_coordinates f
      then set_field f ''geometry''
             (set_field (field f ''geometry'') ''coordinates''
                (JArr (map drop_invalid_ring (elems (rings_of f)))))
      else f)"

text \<open>A feature passes the filter when its properties exist and hold a truthy \<open>last_edited\<close>.\<close>

definition has_last_edited :: "jsval \<Rightarrow> bool" where
  "has_last_edited f =
     (truthy (field f ''properties'') \<and> truthy (field (field f ''properties'') ''last_edited''))"

text \<open>The accumulators of the two versions agree when their four extrema do.\<close>

definition same_extent :: "extent \<Rightarrow> bounds_acc \<Rightarrow> bool" where
  "same_extent ext acc =
     (minLat ext = minLat acc \<and> maxLat ext = maxLat acc \<and>
      minLng ext = minLng acc \<and> maxLng ext = maxLng acc)"

text \<open>A runtime conversion for the examples: every string, array or object becomes NaN.\<close>

definition nan_coerce :: "jsval \<Rightarrow> jsnum" where
  "nan_coerce v = NaN"

text \<open>Building blocks of the examples: a coordinate pair and a polygon feature.\<close>

definition pair :: "real \<Rightarrow> real \<Rightarrow> jsval" where
  "pair lng lat = JArr [JNum (Fin lng), JNum (Fin lat)]"

definition polygon :: "jsval list list \<Rightarrow> jsval" where
  "polygon rings =
     JObj [(''type'', JStr ''Feature''),
           (''geometry'', JObj [(''type'', JStr ''Polygon''),
                                (''coordinates'', JArr (map JArr rings))])]"

text \<open>A feature with properties, as the coverage file holds them.\<close>

definition city :: "jsval \<Rightarrow> jsval list list \<Rightarrow> jsval" where
  "city properties rings =
     JObj [(''type'', JStr ''Feature''),
           (''properties'', properties),
           (''geometry'', JObj [(''type'', JStr ''Polygon''),
                                (''coordinates'', JArr (map JArr rings))])]"

section \<open>Properties of the rounding\<close>

text \<open>
  The exponent brackets the number; the rounded value is within half a spacing of
  the number, keeps its sign, is exact on every number of at most 53 significant bits
  and within the range, and rounding it again changes nothing.
\<close>

lemma two_powi_powr: "(2::real) powi n = 2 powr of_int n"
  by (simp add: powr_real_of_int')

lemma ulp64_powr: "ulp64 x = 2 powr of_int (exponent64 x - 52)"
  unfolding ulp64_def by (rule two_powi_powr)

lemma two_powr_nat: "0 \<le> n \<Longrightarrow> (2::real) powr of_int n = 2 ^ nat n"
  by (simp only: two_powi_powr [symmetric]) (simp add: power_int_def)

lemma two_powr_neg: "0 < n \<Longrightarrow> (2::real) powr of_int (- n) = 1 / 2 ^ nat n"
  by (simp only: two_powi_powr [symmetric]) (simp add: power_int_def field_simps)

lemma binary_exponent_bounds:
  assumes "x \<noteq> 0"
  shows "2 powr of_int (binary_exponent x) \<le> \<bar>x\<bar>"
    and "\<bar>x\<bar> < 2 powr of_int (binary_exponent x + 1)"
proof -
  have "2 powr of_int (binary_exponent x) \<le> \<bar>x\<bar> \<and> \<bar>x\<bar> < 2 powr of_int (binary_exponent x + 1)"
  proof (cases "1 \<le> \<bar>x\<bar>")
    case True
    define a where "a = \<lfloor>\<bar>x\<bar>\<rfloor>"
    from True have a: "0 < a" by (simp add: a_def)
    then have b1: "1 \<le> bitlen a" by (simp add: bitlen_alt_def)
    from bitlen_bounds [OF a] have lo: "2 ^ nat (bitlen a - 1) \<le> a" and hi: "a < 2 ^ nat (bitlen a)"
      by simp_all
    have e: "binary_exponent x = bitlen a - 1" using True by (simp add: binary_exponent_def a_def)
    have "(2::real) powr of_int (bitlen a - 1) = 2 ^ nat (bitlen a - 1)"
      using b1 by (intro two_powr_nat) simp
    also have "\<dots> = of_int (2 ^ nat (bitlen a - 1))" by simp
    also have "\<dots> \<le> of_int a" using lo by (simp only: of_int_le_iff)
    also have "\<dots> \<le> \<bar>x\<bar>" by (simp add: a_def)
    finally have 1: "2 powr of_int (binary_exponent x) \<le> \<bar>x\<bar>" by (simp add: e)
    from hi have "a + 1 \<le> 2 ^ nat (bitlen a)" by simp
    then have "real_of_int (a + 1) \<le> real_of_int (2 ^ nat (bitlen a))" by (simp only: of_int_le_iff)
    moreover have "\<bar>x\<bar> < real_of_int (a + 1)" unfolding a_def by linarith
    ultimately have "\<bar>x\<bar> < 2 ^ nat (bitlen a)" by simp
    also have "(2::real) ^ nat (bitlen a) = 2 powr of_int (bitlen a)"
      using b1 by (intro two_powr_nat [symmetric]) simp
    finally have "\<bar>x\<bar> < 2 powr of_int (binary_exponent x + 1)" by (simp add: e)
    with 1 show ?thesis ..
  next
    case False
    define y where "y = 1 / \<bar>x\<bar>"
    define c where "c = \<lceil>y\<rceil> - 1"
    from False assms have y1: "1 < y" by (simp add: y_def)
    then have "1 < \<lceil>y\<rceil>" by (simp add: less_ceiling_iff)
    then have c: "0 < c" by (simp add: c_def)
    then have b1: "1 \<le> bitlen c" by (simp add: bitlen_alt_def)
    have cy: "of_int c < y" and yc: "y \<le> of_int (c + 1)"
      unfolding c_def by linarith+
    from bitlen_bounds [OF c] have lo: "2 ^ nat (bitlen c - 1) \<le> c" and hi: "c < 2 ^ nat (bitlen c)"
      by simp_all
    have e: "binary_exponent x = - bitlen c" using False by (simp add: binary_exponent_def c_def y_def)
    have xy: "\<bar>x\<bar> = 1 / y" using assms by (simp add: y_def)
    from hi have "c + 1 \<le> 2 ^ nat (bitlen c)" by simp
    then have "real_of_int (c + 1) \<le> real_of_int (2 ^ nat (bitlen c))" by (simp only: of_int_le_iff)
    with yc have "y \<le> 2 ^ nat (bitlen c)" by simp
    with y1 have "1 / 2 ^ nat (bitlen c) \<le> 1 / y" by (simp add: frac_le)
    moreover have "(2::real) powr of_int (- bitlen c) = 1 / 2 ^ nat (bitlen c)"
      using b1 by (intro two_powr_neg) simp
    ultimately have 1: "2 powr of_int (binary_exponent x) \<le> \<bar>x\<bar>" by (simp add: e xy)
    from lo have "real_of_int (2 ^ nat (bitlen c - 1)) \<le> real_of_int c" by (simp only: of_int_le_iff)
    then have "(2::real) ^ nat (bitlen c - 1) \<le> real_of_int c" by (simp only: of_int_power of_int_numeral)
    with cy have "2 ^ nat (bitlen c - 1) < y" by linarith
    then have "1 / y < 1 / 2 ^ nat (bitlen c - 1)" by (simp add: frac_less2)
    moreover have "(2::real) powr of_int (- bitlen c + 1) = 1 / 2 ^ nat (bitlen c - 1)"
    proof (cases "bitlen c = 1")
      case True
      then show ?thesis by simp
    next
      case False
      with b1 have "0 < bitlen c - 1" by simp
      then have "(2::real) powr of_int (- (bitlen c - 1)) = 1 / 2 ^ nat (bitlen c - 1)"
        by (rule two_powr_neg)
      moreover have "- bitlen c + 1 = - (bitlen c - 1)" by simp
      ultimately show ?thesis by (simp only:)
    qed
    ultimately have "\<bar>x\<bar> < 2 powr of_int (binary_exponent x + 1)" by (simp add: e xy)
    with 1 show ?thesis ..
  qed
  then show "2 powr of_int (binary_exponent x) \<le> \<bar>x\<bar>"
    and "\<bar>x\<bar> < 2 powr of_int (binary_exponent x + 1)" by simp_all
qed

lemma ulp64_pos: "0 < ulp64 x"
  by (simp add: ulp64_powr)

lemma round_half_even_of_int: "round_half_even (of_int n) = n"
  by (simp add: round_half_even_def)

lemma round_half_even_error: "\<bar>of_int (round_half_even q) - q\<bar> \<le> 1 / 2"
  unfolding round_half_even_def Let_def by (auto; linarith)

lemma round_half_even_nonneg: "0 \<le> q \<Longrightarrow> 0 \<le> round_half_even q"
  unfolding round_half_even_def Let_def by (auto simp: not_less; linarith?)

lemma round_half_even_nonpos:
  assumes "q \<le> 0"
  shows "round_half_even q \<le> 0"
proof -
  from assms have f: "\<lfloor>q\<rfloor> \<le> 0" by (simp add: floor_le_iff)
  have "\<lfloor>q\<rfloor> + 1 \<le> 0" if "0 < q - of_int \<lfloor>q\<rfloor>"
    using that assms by linarith
  with f show ?thesis by (simp add: round_half_even_def Let_def)
qed

lemma two_powr_add_int: "(2::real) powr of_int (a + b) = 2 powr of_int a * 2 powr of_int b"
  by (simp add: powr_add)

lemma two_powr_53: "(2::real) powr of_int 53 = 2 ^ 53"
  by simp

lemma two_powr_shift: "(2::real) powr of_int (e + 1) = 2 ^ 53 * 2 powr of_int (e - 52)"
proof -
  have "(2::real) powr of_int (e + 1) = 2 powr of_int (53 + (e - 52))"
    by (rule arg_cong [where f = "\<lambda>i. 2 powr of_int i"]) simp
  also have "\<dots> = 2 powr of_int 53 * 2 powr of_int (e - 52)" by (rule two_powr_add_int)
  finally show ?thesis unfolding two_powr_53 .
qed

lemma abs_less_ulp64: 
  assumes "x \<noteq> 0"
  shows "\<bar>x\<bar> < 2 ^ 53 * ulp64 x"
proof -
  have "\<bar>x\<bar> < 2 powr of_int (binary_exponent x + 1)" using assms by (rule binary_exponent_bounds)
  also have "\<dots> \<le> 2 powr of_int (exponent64 x + 1)"
    by (simp add: exponent64_def)
  also have "\<dots> = 2 ^ 53 * ulp64 x"
    unfolding ulp64_powr by (rule two_powr_shift)
  finally show ?thesis .
qed

lemma ulp64_le:
  assumes "x \<noteq> 0"
  shows "ulp64 x \<le> (\<bar>x\<bar> + 1) / 2 ^ 52"
proof (cases "- 1022 \<le> binary_exponent x")
  case True
  then have "exponent64 x = binary_exponent x"
    unfolding exponent64_def by (rule max_absorb1)
  then have "ulp64 x = 2 powr (of_int (binary_exponent x) + - 52)"
    by (simp add: ulp64_powr)
  also have "\<dots> = 2 powr of_int (binary_exponent x) / 2 ^ 52"
    unfolding powr_add by (simp add: powr_minus field_simps)
  also have "\<dots> \<le> \<bar>x\<bar> / 2 ^ 52"
    using binary_exponent_bounds(1) [OF assms] by (simp add: divide_right_mono)
  also have "\<dots> \<le> (\<bar>x\<bar> + 1) / 2 ^ 52" by (simp add: divide_right_mono)
  finally show ?thesis .
next
  case False
  then have "binary_exponent x \<le> - 1022" by linarith
  then have "exponent64 x = - 1022"
    unfolding exponent64_def by (rule max_absorb2)
  then have "ulp64 x = 2 powr (- 1074)"
    by (simp add: ulp64_powr)
  also have "\<dots> \<le> 2 powr (- 52)" by simp
  also have "\<dots> = 1 / 2 ^ 52" by (simp add: powr_minus inverse_eq_divide)
  also have "\<dots> \<le> (\<bar>x\<bar> + 1) / 2 ^ 52" by (simp add: divide_right_mono)
  finally show ?thesis .
qed

lemma round64_close:
  assumes "\<bar>x\<bar> \<le> 2 ^ 1000"
  shows "\<exists>r. round64 x = Fin r \<and> \<bar>r - x\<bar> \<le> (\<bar>x\<bar> + 1) / 2 ^ 53 \<and>
             (0 \<le> x \<longrightarrow> 0 \<le> r) \<and> (x \<le> 0 \<longrightarrow> r \<le> 0)"
proof (cases "x = 0")
  case True
  then show ?thesis by (simp add: round64_def)
next
  case False
  define u where "u = ulp64 x"
  define n where "n = round_half_even (x / u)"
  define r where "r = of_int n * u"
  have u: "0 < u" unfolding u_def by (rule ulp64_pos)
  have "r - x = (of_int n - x / u) * u"
    using u by (simp add: r_def field_simps)
  then have "\<bar>r - x\<bar> = \<bar>of_int n - x / u\<bar> * u"
    using u by (simp add: abs_mult)
  also have "\<dots> \<le> 1 / 2 * u"
    unfolding n_def using u by (intro mult_right_mono round_half_even_error) simp
  also have "\<dots> \<le> 1 / 2 * ((\<bar>x\<bar> + 1) / 2 ^ 52)"
    unfolding u_def using ulp64_le [OF False] by simp
  also have "\<dots> = (\<bar>x\<bar> + 1) / 2 ^ 53" by simp
  finally have close: "\<bar>r - x\<bar> \<le> (\<bar>x\<bar> + 1) / 2 ^ 53" .
  have "(\<bar>x\<bar> + 1) / 2 ^ 53 \<le> \<bar>x\<bar> + 1" by (simp add: field_simps)
  with close have "\<bar>r\<bar> \<le> 2 * \<bar>x\<bar> + 1" by linarith
  also have "\<dots> \<le> 2 * 2 ^ 1000 + (1::real)" using assms by simp
  also have "\<dots> < 2 ^ 1024" by simp
  finally have fin: "\<not> 2 ^ 1024 \<le> \<bar>r\<bar>" by simp
  have r: "round64 x = Fin r"
    using False fin by (simp add: round64_def Let_def r_def n_def u_def)
  have "0 \<le> x \<Longrightarrow> 0 \<le> r"
    unfolding r_def n_def using u by (simp add: round_half_even_nonneg)
  moreover have "x \<le> 0 \<Longrightarrow> r \<le> 0"
    unfolding r_def n_def using u
    by (simp add: round_half_even_nonpos mult_le_0_iff divide_le_0_iff)
  ultimately show ?thesis using r close by blast
qed

lemma round64_exact:
  assumes m: "\<bar>m\<bar> < 2 ^ 53" and k: "- 1074 \<le> k"
    and fin: "\<bar>of_int m * 2 powr of_int k :: real\<bar> < 2 ^ 1024"
  shows "round64 (of_int m * 2 powr of_int k) = Fin (of_int m * 2 powr of_int k)"
proof (cases "m = 0")
  case True
  then show ?thesis by (simp add: round64_def)
next
  case False
  define x :: real where "x = of_int m * 2 powr of_int k"
  from False have x0: "x \<noteq> 0" by (simp add: x_def)
  have "\<bar>x\<bar> = of_int \<bar>m\<bar> * 2 powr of_int k" by (simp add: x_def abs_mult)
  also have "\<dots> < 2 ^ 53 * 2 powr of_int k"
  proof -
    from m have "(of_int \<bar>m\<bar> :: real) < of_int (2 ^ 53)" by (simp only: of_int_less_iff)
    then show ?thesis by simp
  qed
  also have "\<dots> = 2 powr of_int (53 + k)"
    unfolding two_powr_add_int two_powr_53 ..
  finally have "\<bar>x\<bar> < 2 powr of_int (53 + k)" .
  moreover have "2 powr of_int (binary_exponent x) \<le> \<bar>x\<bar>" using x0 by (rule binary_exponent_bounds)
  ultimately have "(2::real) powr of_int (binary_exponent x) < 2 powr of_int (53 + k)" by linarith
  then have "binary_exponent x < 53 + k" by simp
  with k have e: "exponent64 x - 52 \<le> k" by (simp add: exponent64_def)
  define j where "j = nat (k - (exponent64 x - 52))"
  define u where "u = ulp64 x"
  have u: "0 < u" unfolding u_def by (rule ulp64_pos)
  from e have kj: "k = (exponent64 x - 52) + int j" by (simp add: j_def)
  have "(2::real) powr of_int k = 2 powr of_int (exponent64 x - 52) * 2 powr of_int (int j)"
    by (subst kj) (rule two_powr_add_int)
  also have "2 powr of_int (int j) = (2::real) ^ j" by (simp add: powr_realpow)
  finally have pk: "(2::real) powr of_int k = u * 2 ^ j" by (simp add: ulp64_powr u_def)
  have xu: "x = of_int (m * 2 ^ j) * u"
    unfolding x_def pk by simp
  then have q: "x / u = of_int (m * 2 ^ j)" using u by simp
  have "of_int (round_half_even (x / u)) * u = x"
    unfolding q round_half_even_of_int by (rule xu [symmetric])
  moreover from fin have "\<not> 2 ^ 1024 \<le> \<bar>x\<bar>" by (simp add: x_def)
  ultimately show ?thesis
    unfolding x_def [symmetric] round64_def Let_def u_def [symmetric] using x0 by simp
qed

lemma round64_idem:
  assumes "round64 x = Fin r"
  shows "round64 r = Fin r"
proof (cases "x = 0")
  case True
  with assms show ?thesis by (auto simp: round64_def)
next
  case False
  define u where "u = ulp64 x"
  define n where "n = round_half_even (x / u)"
  have u: "0 < u" unfolding u_def by (rule ulp64_pos)
  from assms False have r: "r = of_int n * u" and fin: "\<bar>r\<bar> < 2 ^ 1024"
    by (auto simp: round64_def Let_def n_def u_def split: if_splits)
  have "\<bar>x / u\<bar> < 2 ^ 53"
    using abs_less_ulp64 [OF False] u by (simp add: u_def [symmetric] field_simps)
  moreover have "\<bar>of_int n - x / u\<bar> \<le> 1 / 2" unfolding n_def by (rule round_half_even_error)
  ultimately have "\<bar>real_of_int n\<bar> < 2 ^ 53 + 1" by linarith
  then have "real_of_int \<bar>n\<bar> < real_of_int (2 ^ 53 + 1)" by simp
  then have "\<bar>n\<bar> < 2 ^ 53 + 1" by (simp only: of_int_less_iff)
  then have n: "\<bar>n\<bar> \<le> 2 ^ 53" by simp
  have uk: "u = 2 powr of_int (exponent64 x - 52)" by (simp add: u_def ulp64_powr)
  have k: "- 1074 \<le> exponent64 x - 52" by (simp add: exponent64_def)
  show ?thesis
  proof (cases "\<bar>n\<bar> < 2 ^ 53")
    case True
    from round64_exact [OF True k] fin show ?thesis by (simp add: r uk)
  next
    case False
    with n have "\<bar>n\<bar> = 2 ^ 53" by simp
    then obtain s :: int where s: "\<bar>s\<bar> = 1" and ns: "n = s * 2 ^ 53"
      by (cases "0 \<le> n") (auto intro: that [of 1] that [of "- 1"])
    have "r = of_int s * (2 ^ 53 * 2 powr of_int (exponent64 x - 52))"
      by (simp add: r ns uk)
    then have r': "r = of_int s * 2 powr of_int (exponent64 x + 1)"
      unfolding two_powr_shift [symmetric] .
    have "\<bar>s\<bar> < 2 ^ 53" using s by simp
    moreover have "- 1074 \<le> exponent64 x + 1" using k by simp
    ultimately show ?thesis using fin unfolding r' by (rule round64_exact)
  qed
qed


lemma round64_of_int:
  assumes "\<bar>m\<bar> < 2 ^ 53"
  shows "round64 (of_int m) = Fin (of_int m)"
proof -
  from assms have "real_of_int \<bar>m\<bar> < real_of_int (2 ^ 53)" by (simp only: of_int_less_iff)
  then have "\<bar>real_of_int m\<bar> < 2 ^ 1024" by simp
  with round64_exact [of m 0] assms show ?thesis by simp
qed

lemma round64_dyadic:
  assumes "\<bar>m\<bar> < 2 ^ 53" and "0 < k" and "k \<le> 1074"
  shows "round64 (of_int m / 2 ^ k) = Fin (of_int m / 2 ^ k)"
proof -
  have p: "(2::real) powr of_int (- int k) = 1 / 2 ^ k"
    using two_powr_neg [of "int k"] assms(2) by simp
  from assms(1) have "real_of_int \<bar>m\<bar> < real_of_int (2 ^ 53)" by (simp only: of_int_less_iff)
  then have "\<bar>real_of_int m\<bar> < 2 ^ 53" by simp
  moreover have "\<bar>real_of_int m\<bar> / 2 ^ k \<le> \<bar>real_of_int m\<bar>"
    by (simp add: field_simps mult_le_cancel_left1)
  ultimately have "\<bar>real_of_int m * 2 powr of_int (- int k)\<bar> < 2 ^ 1024"
    unfolding p by (simp add: abs_mult)
  moreover have "- 1074 \<le> - int k" using assms(3) by simp
  ultimately have "round64 (of_int m * 2 powr of_int (- int k)) =
                   Fin (of_int m * 2 powr of_int (- int k))"
    using assms(1) by (intro round64_exact)
  then show ?thesis unfolding p by simp
qed

lemma round64_numeral:
  "numeral n < (2::int) ^ 53 \<Longrightarrow> round64 (numeral n) = Fin (numeral n)"
  "numeral n < (2::int) ^ 53 \<Longrightarrow> round64 (- numeral n) = Fin (- numeral n)"
  "round64 1 = Fin 1"
  "round64 (- 1) = Fin (- 1)"
  using round64_of_int [of "numeral n"] round64_of_int [of "- numeral n"]
    round64_of_int [of 1] round64_of_int [of "- 1"]
  by simp_all

lemma round64_halves:
  "numeral n < (2::int) ^ 53 \<Longrightarrow> round64 (numeral n / 2) = Fin (numeral n / 2)"
  "numeral n < (2::int) ^ 53 \<Longrightarrow> round64 (- (numeral n / 2)) = Fin (- (numeral n / 2))"
  "round64 (1 / 2) = Fin (1 / 2)"
  "round64 (- (1 / 2)) = Fin (- (1 / 2))"
  using round64_dyadic [of "numeral n" 1] round64_dyadic [of "- numeral n" 1]
    round64_dyadic [of 1 1] round64_dyadic [of "- 1" 1]
  by simp_all

lemma round64_quarters:
  "numeral n < (2::int) ^ 53 \<Longrightarrow> round64 (numeral n / 4) = Fin (numeral n / 4)"
  "numeral n < (2::int) ^ 53 \<Longrightarrow> round64 (- (numeral n / 4)) = Fin (- (numeral n / 4))"
  "round64 (1 / 4) = Fin (1 / 4)"
  "round64 (- (1 / 4)) = Fin (- (1 / 4))"
  using round64_dyadic [of "numeral n" 2] round64_dyadic [of "- numeral n" 2]
    round64_dyadic [of 1 2] round64_dyadic [of "- 1" 2]
  by simp_all

lemmas round64_evals = round64_numeral round64_halves round64_quarters

lemma literal_close:
  assumes "\<bar>x\<bar> \<le> 1000"
  obtains r where "literal x = Fin r" and "\<bar>r - x\<bar> \<le> 1 / 1000000"
    and "0 \<le> x \<Longrightarrow> 0 \<le> r" and "x \<le> 0 \<Longrightarrow> r \<le> 0"
proof -
  have "(1000::real) \<le> 2 ^ 1000" by simp
  with assms have "\<bar>x\<bar> \<le> 2 ^ 1000" by linarith
  from round64_close [OF this] obtain r where r: "round64 x = Fin r"
    and c: "\<bar>r - x\<bar> \<le> (\<bar>x\<bar> + 1) / 2 ^ 53" and s: "0 \<le> x \<longrightarrow> 0 \<le> r" "x \<le> 0 \<longrightarrow> r \<le> 0"
    by blast
  have "(\<bar>x\<bar> + 1) / 2 ^ 53 \<le> 1001 / 2 ^ 53" using assms by (simp add: divide_right_mono)
  also have "\<dots> \<le> (1::real) / 1000000" by simp
  finally have "\<bar>r - x\<bar> \<le> 1 / 1000000" using c by linarith
  with r s that show thesis by (simp add: literal_def)
qed

lemma literal_half: "literal (1 / 2) = Fin (1 / 2)"
  by (simp add: literal_def round64_halves)

lemma zoomLevel_Fin:
  "3 < s \<Longrightarrow> zoomLevel (Fin s) = 7"
  "2 < s \<Longrightarrow> s \<le> 3 \<Longrightarrow> zoomLevel (Fin s) = 8"
  "1 < s \<Longrightarrow> s \<le> 2 \<Longrightarrow> zoomLevel (Fin s) = 9"
  "1 / 2 < s \<Longrightarrow> s \<le> 1 \<Longrightarrow> zoomLevel (Fin s) = 10"
  "21 / 100 \<le> s \<Longrightarrow> s \<le> 1 / 2 \<Longrightarrow> zoomLevel (Fin s) = 11"
  "11 / 100 \<le> s \<Longrightarrow> s \<le> 19 / 100 \<Longrightarrow> zoomLevel (Fin s) = 12"
  "6 / 100 \<le> s \<Longrightarrow> s \<le> 9 / 100 \<Longrightarrow> zoomLevel (Fin s) = 13"
  "s \<le> 4 / 100 \<Longrightarrow> zoomLevel (Fin s) = 14"
proof -
  obtain t2 where t2: "literal (1 / 5) = Fin t2" and "\<bar>t2 - 1 / 5\<bar> \<le> 1 / 1000000"
    by (rule literal_close [of "1 / 5"]) simp_all
  then have b2: "19 / 100 < t2" "t2 < 21 / 100" by linarith+
  obtain t1 where t1: "literal (1 / 10) = Fin t1" and "\<bar>t1 - 1 / 10\<bar> \<le> 1 / 1000000"
    by (rule literal_close [of "1 / 10"]) simp_all
  then have b1: "9 / 100 < t1" "t1 < 11 / 100" by linarith+
  obtain t05 where t05: "literal (1 / 20) = Fin t05" and "\<bar>t05 - 1 / 20\<bar> \<le> 1 / 1000000"
    by (rule literal_close [of "1 / 20"]) simp_all
  then have b05: "4 / 100 < t05" "t05 < 6 / 100" by linarith+
  note defs = zoomLevel_def js_gt_def literal_half t2 t1 t05
  show "3 < s \<Longrightarrow> zoomLevel (Fin s) = 7" by (simp add: defs)
  show "2 < s \<Longrightarrow> s \<le> 3 \<Longrightarrow> zoomLevel (Fin s) = 8" by (simp add: defs)
  show "1 < s \<Longrightarrow> s \<le> 2 \<Longrightarrow> zoomLevel (Fin s) = 9" by (simp add: defs)
  show "1 / 2 < s \<Longrightarrow> s \<le> 1 \<Longrightarrow> zoomLevel (Fin s) = 10" by (simp add: defs)
  show "21 / 100 \<le> s \<Longrightarrow> s \<le> 1 / 2 \<Longrightarrow> zoomLevel (Fin s) = 11"
    using b2 by (simp add: defs)
  show "11 / 100 \<le> s \<Longrightarrow> s \<le> 19 / 100 \<Longrightarrow> zoomLevel (Fin s) = 12"
    using b2 b1 by (simp add: defs)
  show "6 / 100 \<le> s \<Longrightarrow> s \<le> 9 / 100 \<Longrightarrow> zoomLevel (Fin s) = 13"
    using b2 b1 b05 by (simp add: defs)
  show "s \<le> 4 / 100 \<Longrightarrow> zoomLevel (Fin s) = 14"
    using b2 b1 b05 by (simp add: defs)
qed

text \<open>
  The source writes the fallback longitude as \<open>-96.7970\<close>, the negation of a
  literal; rounding commutes with negation, so this is the value of \<open>literal (- 96.7970)\<close>.
\<close>

lemma round_half_even_minus: "round_half_even (- q) = - round_half_even q"
proof (cases "q = of_int \<lfloor>q\<rfloor>")
  case True
  then obtain n where q: "q = of_int n" ..
  have "- real_of_int n = of_int (- n)" by simp
  then show ?thesis unfolding q by (simp only: round_half_even_of_int)
next
  case False
  define f where "f = \<lfloor>q\<rfloor>"
  from False have lt: "of_int f < q" "q < of_int f + 1"
    unfolding f_def by linarith+
  then have fl: "\<lfloor>- q\<rfloor> = - f - 1" by (simp add: floor_eq_iff)
  show ?thesis
    unfolding round_half_even_def Let_def fl f_def [symmetric]
    using lt by (auto simp: not_less; linarith?)
qed

lemma round64_minus: "round64 (- x) = js_neg (round64 x)"
proof -
  have u: "ulp64 (- x) = ulp64 x"
    by (simp add: ulp64_def exponent64_def binary_exponent_def)
  show ?thesis
    by (simp add: round64_def Let_def u round_half_even_minus abs_mult)
qed

lemma literal_minus: "literal (- x) = js_neg (literal x)"
  unfolding literal_def by (rule round64_minus)

section \<open>The loops as folds\<close>

lemma forEach_fold:
  assumes "\<And>s x. x \<in> set xs \<Longrightarrow> f s x = Inr (g x s)"
  shows "forEach xs f s = Inr (fold g xs s)"
  using assms by (induction xs arbitrary: s) simp_all

lemma forEach_ok_iff:
  assumes "\<And>s x. x \<in> set xs \<Longrightarrow> (\<exists>s'. f s x = Inr s') = P x"
  shows "(\<exists>s'. forEach xs f s = Inr s') = list_all P xs"
  using assms
proof (induction xs arbitrary: s)
  case Nil
  then show ?case by simp
next
  case (Cons x xs)
  show ?case
  proof (cases "f s x")
    case (Inl e)
    with Cons.prems [of x s] show ?thesis by auto
  next
    case (Inr s')
    with Cons.prems [of x s] have "P x" by auto
    moreover have "(\<exists>t. forEach xs f s' = Inr t) = list_all P xs"
      by (rule Cons.IH) (simp add: Cons.prems)
    ultimately show ?thesis using Inr by simp
  qed
qed

lemma range_check:
  "(\<not> isNaN lng \<and> \<not> isNaN lat \<and> js_ge lng (Fin (- 180)) \<and> js_le lng (Fin 180) \<and>
    js_ge lat (Fin (- 90)) \<and> js_le lat (Fin 90)) =
   (case (lng, lat) of
      (Fin a, Fin b) \<Rightarrow> - 180 \<le> a \<and> a \<le> 180 \<and> - 90 \<le> b \<and> b \<le> 90
    | _ \<Rightarrow> False)"
  by (cases lng; cases lat) (auto simp: isNaN_def js_ge_def js_le_def)

lemma visit_coord_array:
  "visit_coord acc (JArr xs) =
     Inr (case coord_point (JArr xs) of Some p \<Rightarrow> add_point p acc | None \<Rightarrow> acc)"
proof (cases xs)
  case Nil
  then show ?thesis
    by (simp add: visit_coord_def iterate_def nth_or_undefined_def coord_point_def)
next
  case (Cons x ys)
  show ?thesis
  proof (cases ys)
    case Nil
    with Cons show ?thesis
      by (cases x) (simp_all add: visit_coord_def iterate_def nth_or_undefined_def coord_point_def
          split: jsnum.splits)
  next
    case (Cons y zs)
    note ys = this
    show ?thesis
    proof (cases "\<exists>a b. x = JNum (Fin a) \<and> y = JNum (Fin b)")
      case True
      then obtain a b where "x = JNum (Fin a)" "y = JNum (Fin b)" by blast
      with \<open>xs = x # ys\<close> ys show ?thesis
        by (simp add: visit_coord_def iterate_def nth_or_undefined_def coord_point_def
            range_check add_point_def)
    next
      case False
      with \<open>xs = x # ys\<close> ys show ?thesis
        by (auto simp: visit_coord_def iterate_def nth_or_undefined_def coord_point_def
            range_check split: jsval.splits jsnum.splits)
    qed
  qed
qed

lemma visit_coord_string:
  "visit_coord acc (JStr s) = Inr acc"
  by (cases s; cases "tl s") (auto simp: visit_coord_def iterate_def nth_or_undefined_def)

lemma coord_point_string: "coord_point (JStr s) = None"
  by (simp add: coord_point_def)

lemma visit_coord_iterable:
  "iterable c \<Longrightarrow>
   visit_coord acc c = Inr (case coord_point c of Some p \<Rightarrow> add_point p acc | None \<Rightarrow> acc)"
  by (cases c) (simp_all add: iterable_def visit_coord_array visit_coord_string coord_point_string)

lemma visit_coord_ok_iff: "(\<exists>acc'. visit_coord acc c = Inr acc') = iterable c"
  by (cases c) (simp_all add: iterable_def visit_coord_array visit_coord_string,
      simp_all add: visit_coord_def iterate_def)


lemma js_error_TypeError: "(e::js_error) = TypeError"
  by (cases e)

lemma fold_map_filter:
  "fold (\<lambda>c s. case h c of Some p \<Rightarrow> k p s | None \<Rightarrow> s) cs s = fold k (List.map_filter h cs) s"
  by (induction cs arbitrary: s) (simp_all add: split: option.splits)

lemma map_filter_append: "List.map_filter h (xs @ ys) = List.map_filter h xs @ List.map_filter h ys"
  by (simp add: List.map_filter_def)

lemma map_filter_concat: "List.map_filter h (concat xss) = concat (map (List.map_filter h) xss)"
  by (induction xss) (simp_all add: map_filter_append)

lemma fold_concat_list: "fold g (concat xss) s = fold (\<lambda>xs. fold g xs) xss s"
  by (induction xss arbitrary: s) simp_all

lemma visit_ring_wf:
  assumes "wf_ring r"
  shows "visit_ring acc r = Inr (fold add_point (List.map_filter coord_point (elems r)) acc)"
proof -
  from assms obtain cs where r: "r = JArr cs" and cs: "list_all iterable cs"
    by (cases r) (simp_all add: wf_ring_def is_array_def elems_def)
  have "forEach cs visit_coord acc =
        Inr (fold (\<lambda>c s. case coord_point c of Some p \<Rightarrow> add_point p s | None \<Rightarrow> s) cs acc)"
    by (rule forEach_fold) (use cs in \<open>simp add: list_all_iff visit_coord_iterable\<close>)
  then show ?thesis
    by (simp add: r visit_ring_def array_forEach_def elems_def fold_map_filter)
qed

lemma visit_ring_ok_iff: "(\<exists>acc'. visit_ring acc r = Inr acc') = wf_ring r"
proof (cases r)
  case (JArr cs)
  have "(\<exists>acc'. forEach cs visit_coord acc = Inr acc') = list_all iterable cs"
    by (rule forEach_ok_iff) (rule visit_coord_ok_iff)
  then show ?thesis
    by (simp add: JArr visit_ring_def array_forEach_def wf_ring_def is_array_def elems_def)
qed (simp_all add: visit_ring_def array_forEach_def wf_ring_def is_array_def)

lemma visit_rings_wf:
  assumes "list_all wf_ring rs"
  shows "forEach rs visit_ring acc =
         Inr (fold add_point (List.map_filter coord_point (concat (map elems rs))) acc)"
proof -
  have "forEach rs visit_ring acc =
        Inr (fold (\<lambda>r. fold add_point (List.map_filter coord_point (elems r))) rs acc)"
    by (rule forEach_fold) (use assms in \<open>simp add: list_all_iff visit_ring_wf\<close>)
  also have "fold (\<lambda>r. fold add_point (List.map_filter coord_point (elems r))) rs acc =
             fold add_point (List.map_filter coord_point (concat (map elems rs))) acc"
    by (simp add: map_filter_concat fold_concat_list fold_map comp_def)
  finally show ?thesis .
qed

lemma visit_feature_wf:
  assumes "wf_feature f"
  shows "visit_feature acc f = Inr (fold add_point (List.map_filter coord_point (feature_coords f)) acc)"
proof (cases "has_coordinates f")
  case True
  with assms obtain rs where rs: "rings_of f = JArr rs" and wf: "list_all wf_ring rs"
    by (cases "rings_of f") (simp_all add: wf_feature_def is_array_def elems_def)
  from assms True rs show ?thesis
    using visit_rings_wf [OF wf, of acc]
    by (simp add: visit_feature_def get_prop_def wf_feature_def has_coordinates_def
        rings_of_def array_forEach_def feature_coords_def elems_def)
next
  case False
  with assms show ?thesis
    by (auto simp: visit_feature_def get_prop_def wf_feature_def has_coordinates_def
        feature_coords_def)
qed

lemma visit_feature_ok_iff: "(\<exists>acc'. visit_feature acc f = Inr acc') = wf_feature f"
proof (cases "nullish f")
  case True
  then show ?thesis by (simp add: visit_feature_def get_prop_def wf_feature_def)
next
  case nn: False
  show ?thesis
  proof (cases "has_coordinates f")
    case False
    with nn show ?thesis
      by (auto simp: visit_feature_def get_prop_def wf_feature_def has_coordinates_def)
  next
    case True
    show ?thesis
    proof (cases "rings_of f")
      case (JArr rs)
      have "(\<exists>acc'. forEach rs visit_ring acc = Inr acc') = list_all wf_ring rs"
        by (rule forEach_ok_iff) (rule visit_ring_ok_iff)
      with nn True JArr show ?thesis
        by (simp add: visit_feature_def get_prop_def wf_feature_def has_coordinates_def
            rings_of_def array_forEach_def is_array_def elems_def)
    qed (use nn True in \<open>simp_all add: visit_feature_def get_prop_def wf_feature_def
          has_coordinates_def rings_of_def array_forEach_def is_array_def\<close>)
  qed
qed

lemma visit_features_wf:
  assumes "list_all wf_feature fs"
  shows "forEach fs visit_feature acc = Inr (fold add_point (valid_points fs) acc)"
proof -
  have "forEach fs visit_feature acc =
        Inr (fold (\<lambda>f. fold add_point (List.map_filter coord_point (feature_coords f))) fs acc)"
    by (rule forEach_fold) (use assms in \<open>simp add: list_all_iff visit_feature_wf\<close>)
  also have "fold (\<lambda>f. fold add_point (List.map_filter coord_point (feature_coords f))) fs acc =
             fold add_point (valid_points fs) acc"
    by (simp add: valid_points_def all_coords_def map_filter_concat fold_concat_list fold_map comp_def)
  finally show ?thesis .
qed

lemma visit_features_ok_iff:
  "(\<exists>acc'. forEach fs visit_feature acc = Inr acc') = list_all wf_feature fs"
  by (rule forEach_ok_iff) (rule visit_feature_ok_iff)

lemma Math_min_Fin: "Math_min (Fin a) (Fin b) = Fin (min a b)"
  by (auto simp: Math_min_def isNaN_def)

lemma Math_max_Fin: "Math_max (Fin a) (Fin b) = Fin (max a b)"
  by (auto simp: Math_max_def isNaN_def)

lemma fold_add_point_Fin:
  "fold add_point ps
     \<lparr>minLat = Fin a1, maxLat = Fin a2, minLng = Fin b1, maxLng = Fin b2, hasValidCoords = True\<rparr> =
   \<lparr>minLat = Fin (fold min (map snd ps) a1), maxLat = Fin (fold max (map snd ps) a2),
    minLng = Fin (fold min (map fst ps) b1), maxLng = Fin (fold max (map fst ps) b2),
    hasValidCoords = True\<rparr>"
proof (induction ps arbitrary: a1 a2 b1 b2)
  case Nil
  show ?case by simp
next
  case (Cons p ps)
  have "add_point p \<lparr>minLat = Fin a1, maxLat = Fin a2, minLng = Fin b1, maxLng = Fin b2,
                     hasValidCoords = True\<rparr> =
        \<lparr>minLat = Fin (min (snd p) a1), maxLat = Fin (max (snd p) a2),
         minLng = Fin (min (fst p) b1), maxLng = Fin (max (fst p) b2), hasValidCoords = True\<rparr>"
    by (simp add: add_point_def Math_min_Fin Math_max_Fin min.commute max.commute)
  then show ?case by (simp add: Cons.IH)
qed

lemma add_point_init:
  "add_point p init_acc =
   \<lparr>minLat = Fin (snd p), maxLat = Fin (snd p), minLng = Fin (fst p), maxLng = Fin (fst p),
    hasValidCoords = True\<rparr>"
  by (simp add: add_point_def init_acc_def Math_min_def Math_max_def isNaN_def)

lemma fold_add_point_init:
  assumes "ps \<noteq> []"
  shows "fold add_point ps init_acc =
         \<lparr>minLat = Fin (min_lat ps), maxLat = Fin (max_lat ps),
          minLng = Fin (min_lng ps), maxLng = Fin (max_lng ps), hasValidCoords = True\<rparr>"
proof -
  from assms obtain p qs where ps: "ps = p # qs" by (cases ps) auto
  show ?thesis
    unfolding ps min_lat_def max_lat_def min_lng_def max_lng_def
    by (simp add: add_point_init fold_add_point_Fin Min.set_eq_fold Max.set_eq_fold del: set_simps)
qed

lemma view_of_acc_Fin:
  "view_of_acc \<lparr>minLat = Fin a1, maxLat = Fin a2, minLng = Fin b1, maxLng = Fin b2,
                hasValidCoords = True\<rparr> =
   \<lparr>longitude = js_div (js_add (Fin b1) (Fin b2)) (Fin 2),
    latitude = js_div (js_add (Fin a1) (Fin a2)) (Fin 2),
    zoom = zoomLevel (Math_max (js_sub (Fin a2) (Fin a1)) (js_sub (Fin b2) (Fin b1)))\<rparr>"
  by (simp add: view_of_acc_def num_eq_def isNaN_def Let_def)

lemma view_of_acc_init: "view_of_acc init_acc = default_view"
  by (simp add: view_of_acc_def init_acc_def)

lemma calculateBounds_array:
  "calculateBounds (JArr fs) =
     (if fs = [] then Inr None
      else case forEach fs visit_feature init_acc of
             Inl e \<Rightarrow> Inl e
           | Inr acc \<Rightarrow> Inr (Some (view_of_acc acc)))"
  by (simp add: calculateBounds_def truthy_def field_def strict_eq_num_def num_eq_def isNaN_def
      array_forEach_def)

lemma calculateBounds_wf:
  assumes "list_all wf_feature fs" and "fs \<noteq> []"
  shows "calculateBounds (JArr fs) =
         Inr (Some (view_of_acc (fold add_point (valid_points fs) init_acc)))"
  using assms by (simp add: calculateBounds_array visit_features_wf)

lemma calculateBounds_points:
  assumes "list_all wf_feature fs" and "valid_points fs \<noteq> []"
  shows "calculateBounds (JArr fs) =
         Inr (Some \<lparr>longitude = js_div (js_add (Fin (min_lng (valid_points fs)))
                                               (Fin (max_lng (valid_points fs)))) (Fin 2),
                    latitude = js_div (js_add (Fin (min_lat (valid_points fs)))
                                              (Fin (max_lat (valid_points fs)))) (Fin 2),
                    zoom = zoomLevel (spread (valid_points fs))\<rparr>)"
proof -
  from assms(2) have "fs \<noteq> []"
    by (auto simp: valid_points_def all_coords_def)
  with assms(1) have "calculateBounds (JArr fs) =
      Inr (Some (view_of_acc (fold add_point (valid_points fs) init_acc)))"
    by (rule calculateBounds_wf)
  then show ?thesis
    unfolding fold_add_point_init [OF assms(2)] view_of_acc_Fin spread_def lat_span_def
      lng_span_def .
qed

lemma calculateBounds_no_points:
  assumes "list_all wf_feature fs" and "fs \<noteq> []" and "valid_points fs = []"
  shows "calculateBounds (JArr fs) = Inr (Some default_view)"
  using assms by (simp add: calculateBounds_wf view_of_acc_init)

lemma calculateBounds_throws_iff:
  assumes "fs \<noteq> []"
  shows "(calculateBounds (JArr fs) = Inl TypeError) = (\<not> list_all wf_feature fs)"
proof -
  have "(\<exists>acc'. forEach fs visit_feature init_acc = Inr acc') = list_all wf_feature fs"
    by (rule visit_features_ok_iff)
  with assms show ?thesis
    by (cases "forEach fs visit_feature init_acc")
      (auto simp: calculateBounds_array js_error_TypeError)
qed

section \<open>The claims\<close>

text \<open>The definitions an example unfolds.\<close>

lemmas example_defs =
  wf_feature_def wf_ring_def has_coordinates_def rings_of_def is_array_def
  iterable_def elems_def nullish_def field_def truthy_def isNaN_def polygon_def pair_def
  valid_points_def all_coords_def feature_coords_def coord_point_def valid_coord_def

lemma truthy_coordinates_field:
  assumes "truthy (field g ''coordinates'')"
  shows "truthy g"
  using assms by (cases g) (simp_all add: field_def truthy_def)

lemma field_not_nullish:
  assumes "truthy (field f k)"
  shows "\<not> nullish f"
  using assms by (cases f) (simp_all add: field_def truthy_def nullish_def)

lemma round64_zero: "round64 0 = Fin 0"
  by (simp add: round64_def)

lemma literal_idem: "literal x = Fin t \<Longrightarrow> round64 t = Fin t"
  unfolding literal_def by (rule round64_idem)

lemma js_lt_NegInf: "js_lt a NegInf = False"
  by (cases a) simp_all

lemma zoomLevel_NegInf: "zoomLevel NegInf = 14"
  by (simp add: zoomLevel_def js_gt_def js_lt_NegInf)

lemmas extent_defs =
  min_lat_def max_lat_def min_lng_def max_lng_def spread_def lat_span_def lng_span_def

text \<open>What the evaluation of an example at exactly representable numbers needs.\<close>

lemmas eval_defs =
  extent_defs js_sub_def Math_max_Fin Math_min_Fin round64_evals round64_zero zoomLevel_Fin

text \<open>
  Claim C7. A single feature whose only ring is the point [-97.0, 33.0] written twice
  is framed at latitude 33.0 and longitude -97.0 with zoom 14: the spread is 0.
\<close>

theorem duplicated_point_ring:
  assumes "rings_of f = JArr [JArr [pair (- 97) 33, pair (- 97) 33]]"
  shows "calculateBounds (JArr [f]) =
         Inr (Some \<lparr>longitude = Fin (- 97), latitude = Fin 33, zoom = 14\<rparr>)"
proof -
  from assms have c: "truthy (field (field f ''geometry'') ''coordinates'')"
    by (simp add: rings_of_def truthy_def)
  then have g: "truthy (field f ''geometry'')" by (rule truthy_coordinates_field)
  then have nn: "\<not> nullish f" by (rule field_not_nullish)
  from c g have hc: "has_coordinates f" by (simp add: has_coordinates_def)
  have wf: "list_all wf_feature [f]"
    using nn hc assms by (simp add: wf_feature_def is_array_def elems_def wf_ring_def iterable_def pair_def)
  have ps: "valid_points [f] = [(- 97, 33), (- 97, 33)]"
    using hc assms
    by (simp add: valid_points_def all_coords_def feature_coords_def elems_def pair_def
        coord_point_def)
  have "valid_points [f] \<noteq> []" by (simp add: ps)
  from calculateBounds_points [OF wf this] show ?thesis
    by (simp add: ps eval_defs)
qed

text \<open>An instance: a GeoJSON polygon feature with that ring.\<close>

theorem duplicated_point_ring_witness:
  "rings_of (polygon [[pair (- 97) 33, pair (- 97) 33]]) =
     JArr [JArr [pair (- 97) 33, pair (- 97) 33]] \<and>
   calculateBounds (JArr [polygon [[pair (- 97) 33, pair (- 97) 33]]]) =
     Inr (Some \<lparr>longitude = Fin (- 97), latitude = Fin 33, zoom = 14\<rparr>)"
proof -
  have h: "rings_of (polygon [[pair (- 97) 33, pair (- 97) 33]]) =
           JArr [JArr [pair (- 97) 33, pair (- 97) 33]]"
    by (simp add: rings_of_def polygon_def field_def)
  from h duplicated_point_ring [OF h] show ?thesis by simp
qed

text \<open>
  Claim C1, as stated, at the empty feature sequence: the function returns null there,
  not the fallback object.
\<close>

theorem empty_sequence_is_not_the_fallback:
  "calculateBounds (JArr []) \<noteq>
   Inr (Some \<lparr>longitude = literal (- 96.7970), latitude = literal 32.9750, zoom = 9\<rparr>)"
  by (simp add: calculateBounds_array)

text \<open>
  Claim C1, amended. On a feature sequence of the shape of the data model in which no
  valid coordinate pair is found (features without geometry or coordinates, empty
  rings, pairs that are all invalid) the function returns exactly the fallback
  \<open>{ latitude: 32.9750, longitude: -96.7970, zoom: 9 }\<close> when the sequence is not
  empty, and null when it is empty.
\<close>

theorem fallback_without_valid_pair:
  assumes "list_all wf_feature fs" and "valid_points fs = []"
  shows "calculateBounds (JArr fs) =
         (if fs = [] then Inr None
          else Inr (Some \<lparr>longitude = literal (- 96.7970), latitude = literal 32.9750, zoom = 9\<rparr>))"
proof (cases "fs = []")
  case True
  then show ?thesis by (simp add: calculateBounds_array)
next
  case False
  with assms show ?thesis by (simp add: calculateBounds_no_points default_view_def)
qed

text \<open>
  An instance: a feature with a null geometry, a polygon without rings, and a polygon
  whose entries are out of range, non-numeric, NaN, too short, or a string.
\<close>

theorem fallback_without_valid_pair_witness:
  "list_all wf_feature
     [JObj [(''type'', JStr ''Feature''), (''geometry'', JNull)],
      polygon [],
      polygon [[pair (- 97) 95, JArr [JStr ''-97'', JNum (Fin 33)], JArr [JNum NaN, JNum (Fin 33)],
                JArr [JNum (Fin 33)], JStr ''ab'']]] \<and>
   valid_points
     [JObj [(''type'', JStr ''Feature''), (''geometry'', JNull)],
      polygon [],
      polygon [[pair (- 97) 95, JArr [JStr ''-97'', JNum (Fin 33)], JArr [JNum NaN, JNum (Fin 33)],
                JArr [JNum (Fin 33)], JStr ''ab'']]] = [] \<and>
   calculateBounds (JArr
     [JObj [(''type'', JStr ''Feature''), (''geometry'', JNull)],
      polygon [],
      polygon [[pair (- 97) 95, JArr [JStr ''-97'', JNum (Fin 33)], JArr [JNum NaN, JNum (Fin 33)],
                JArr [JNum (Fin 33)], JStr ''ab'']]]) =
     Inr (Some \<lparr>longitude = literal (- 96.7970), latitude = literal 32.9750, zoom = 9\<rparr>)"
proof -
  let ?fs = "[JObj [(''type'', JStr ''Feature''), (''geometry'', JNull)],
      polygon [],
      polygon [[pair (- 97) 95, JArr [JStr ''-97'', JNum (Fin 33)], JArr [JNum NaN, JNum (Fin 33)],
                JArr [JNum (Fin 33)], JStr ''ab'']]]"
  have wf: "list_all wf_feature ?fs" by (simp add: example_defs)
  have ps: "valid_points ?fs = []" by (simp add: example_defs)
  from wf ps fallback_without_valid_pair [OF wf ps] show ?thesis by simp
qed

section \<open>Finite results\<close>

lemma map_filter_member:
  assumes "p \<in> set (List.map_filter h xs)"
  shows "\<exists>x. h x = Some p"
  using assms by (induction xs) (auto split: option.splits)

lemma valid_points_range:
  assumes "p \<in> set (valid_points fs)"
  shows "\<bar>fst p\<bar> \<le> 180 \<and> \<bar>snd p\<bar> \<le> 90"
proof -
  from assms obtain c where "coord_point c = Some p"
    unfolding valid_points_def by (blast dest: map_filter_member)
  then show ?thesis
    by (auto simp: coord_point_def split: jsval.splits list.splits jsnum.splits if_splits)
qed

lemma extrema_range:
  assumes "valid_points fs \<noteq> []"
  shows "\<bar>min_lng (valid_points fs)\<bar> \<le> 180" and "\<bar>max_lng (valid_points fs)\<bar> \<le> 180"
    and "\<bar>min_lat (valid_points fs)\<bar> \<le> 180" and "\<bar>max_lat (valid_points fs)\<bar> \<le> 180"
proof -
  let ?ps = "valid_points fs"
  from assms have ne: "set (map fst ?ps) \<noteq> {}" "set (map snd ?ps) \<noteq> {}" by simp_all
  have "min_lng ?ps \<in> set (map fst ?ps)"
    unfolding min_lng_def by (rule Min_in) (use ne in simp_all)
  moreover have "max_lng ?ps \<in> set (map fst ?ps)"
    unfolding max_lng_def by (rule Max_in) (use ne in simp_all)
  moreover have "min_lat ?ps \<in> set (map snd ?ps)"
    unfolding min_lat_def by (rule Min_in) (use ne in simp_all)
  moreover have "max_lat ?ps \<in> set (map snd ?ps)"
    unfolding max_lat_def by (rule Max_in) (use ne in simp_all)
  ultimately show "\<bar>min_lng ?ps\<bar> \<le> 180" and "\<bar>max_lng ?ps\<bar> \<le> 180"
    and "\<bar>min_lat ?ps\<bar> \<le> 180" and "\<bar>max_lat ?ps\<bar> \<le> 180"
    using valid_points_range [of _ fs] by fastforce+
qed

lemma midpoint_finite:
  assumes "\<bar>a\<bar> \<le> 180" and "\<bar>b\<bar> \<le> 180"
  shows "\<exists>c. js_div (js_add (Fin a) (Fin b)) (Fin 2) = Fin c"
proof -
  have "(360::real) \<le> 2 ^ 1000" by simp
  with assms have "\<bar>a + b\<bar> \<le> 2 ^ 1000" by linarith
  from round64_close [OF this] obtain s where s: "round64 (a + b) = Fin s"
    and "\<bar>s - (a + b)\<bar> \<le> (\<bar>a + b\<bar> + 1) / 2 ^ 53" by blast
  moreover have "(\<bar>a + b\<bar> + 1) / 2 ^ 53 \<le> \<bar>a + b\<bar> + 1" by (simp add: field_simps)
  ultimately have "\<bar>s\<bar> \<le> 1000" using assms by linarith
  moreover have "(1000::real) \<le> 2 ^ 1000" by simp
  ultimately have "\<bar>s / 2\<bar> \<le> 2 ^ 1000" by simp
  from round64_close [OF this] obtain c where "round64 (s / 2) = Fin c" by blast
  with s show ?thesis by simp
qed

lemma default_view_finite:
  "\<exists>lng lat. default_view = \<lparr>longitude = Fin lng, latitude = Fin lat, zoom = 9\<rparr>"
proof -
  obtain lng where "literal (- 96.7970) = Fin lng" by (rule literal_close [of "- 96.7970"]) simp_all
  moreover obtain lat where "literal 32.9750 = Fin lat" by (rule literal_close [of "32.9750"]) simp_all
  ultimately show ?thesis by (simp add: default_view_def)
qed

section \<open>The claims, continued\<close>

text \<open>
  Claim C2, as stated, at the empty feature sequence: the function returns null, not a
  view record.
\<close>

theorem empty_sequence_returns_null:
  "calculateBounds (JArr []) = Inr None"
  by (simp add: calculateBounds_array)

text \<open>
  Claim C2, amended. The function returns a view record, with finite latitude and
  longitude and an integer zoom, exactly on the non-empty feature sequences of the
  shape of the data model; there it throws nothing. (On the empty sequence it returns
  null; on a non-empty sequence outside that shape a \<open>forEach\<close> or the destructuring
  throws.)
\<close>

theorem view_exactly_for_nonempty_input:
  "(\<exists>lng lat z. calculateBounds (JArr fs) =
       Inr (Some \<lparr>longitude = Fin lng, latitude = Fin lat, zoom = z\<rparr>)) =
   (fs \<noteq> [] \<and> list_all wf_feature fs)"
proof (cases "fs = []")
  case True
  then show ?thesis by (simp add: calculateBounds_array)
next
  case ne: False
  show ?thesis
  proof (cases "list_all wf_feature fs")
    case False
    with ne have "calculateBounds (JArr fs) = Inl TypeError"
      by (simp add: calculateBounds_throws_iff)
    with ne False show ?thesis by simp
  next
    case True
    have "\<exists>lng lat z. calculateBounds (JArr fs) =
        Inr (Some \<lparr>longitude = Fin lng, latitude = Fin lat, zoom = z\<rparr>)"
    proof (cases "valid_points fs = []")
      case True
      with ne \<open>list_all wf_feature fs\<close> have "calculateBounds (JArr fs) = Inr (Some default_view)"
        by (simp add: calculateBounds_no_points)
      with default_view_finite show ?thesis by auto
    next
      case False
      from midpoint_finite [OF extrema_range(1,2) [OF False]] obtain lng
        where lng: "js_div (js_add (Fin (min_lng (valid_points fs)))
                                   (Fin (max_lng (valid_points fs)))) (Fin 2) = Fin lng" ..
      from midpoint_finite [OF extrema_range(3,4) [OF False]] obtain lat
        where lat: "js_div (js_add (Fin (min_lat (valid_points fs)))
                                   (Fin (max_lat (valid_points fs)))) (Fin 2) = Fin lat" ..
      from calculateBounds_points [OF True False] show ?thesis
        unfolding lng lat by blast
    qed
    with ne True show ?thesis by simp
  qed
qed

text \<open>An instance: a polygon with one point and a feature without geometry.\<close>

theorem view_exactly_for_nonempty_input_witness:
  "[polygon [[pair (- 97) 33]], JObj []] \<noteq> [] \<and>
   list_all wf_feature [polygon [[pair (- 97) 33]], JObj []] \<and>
   (\<exists>lng lat z. calculateBounds (JArr [polygon [[pair (- 97) 33]], JObj []]) =
       Inr (Some \<lparr>longitude = Fin lng, latitude = Fin lat, zoom = z\<rparr>))"
proof -
  have wf: "list_all wf_feature [polygon [[pair (- 97) 33]], JObj []]" by (simp add: example_defs)
  with view_exactly_for_nonempty_input [of "[polygon [[pair (- 97) 33]], JObj []]"]
  show ?thesis by simp
qed

text \<open>
  Claim C3, as stated, at two features whose coordinates span exactly 1.0 in latitude
  (33 to 34) and exactly 0.4 in longitude (0 to 0.4): the zoom is 10, not 9, since 1.0
  is not greater than 1.
\<close>

theorem unit_latitude_span_is_zoom_10:
  "lat_span (valid_points [polygon [[pair 0 33]],
                           polygon [[JArr [JNum (literal 0.4), JNum (Fin 34)]]]]) = Fin 1 \<and>
   lng_span (valid_points [polygon [[pair 0 33]],
                           polygon [[JArr [JNum (literal 0.4), JNum (Fin 34)]]]]) = literal 0.4 \<and>
   calculateBounds (JArr [polygon [[pair 0 33]],
                          polygon [[JArr [JNum (literal 0.4), JNum (Fin 34)]]]]) =
     Inr (Some \<lparr>longitude = js_div (literal 0.4) (Fin 2), latitude = Fin 33.5, zoom = 10\<rparr>)"
proof -
  obtain t where t: "literal (2 / 5) = Fin t" and "\<bar>t - 2 / 5\<bar> \<le> 1 / 1000000"
    by (rule literal_close [of "2 / 5"]) simp_all
  then have b: "0 < t" "t < 1" by linarith+
  have i: "round64 t = Fin t" using t by (rule literal_idem)
  let ?fs = "[polygon [[pair 0 33]], polygon [[JArr [JNum (Fin t), JNum (Fin 34)]]]]"
  have wf: "list_all wf_feature ?fs" by (simp add: example_defs)
  have ps: "valid_points ?fs = [(0, 33), (t, 34)]"
    using b by (simp add: example_defs)
  have ne: "valid_points ?fs \<noteq> []" unfolding ps by simp
  have m: "min 0 t = 0" "max 0 t = t" "max 1 t = 1" using b by simp_all
  have "lat_span (valid_points ?fs) = Fin 1" "lng_span (valid_points ?fs) = Fin t"
    unfolding ps by (simp_all add: eval_defs m i)
  moreover from calculateBounds_points [OF wf ne]
  have "calculateBounds (JArr ?fs) =
        Inr (Some \<lparr>longitude = js_div (Fin t) (Fin 2), latitude = Fin 33.5, zoom = 10\<rparr>)"
    unfolding ps js_div.simps by (simp add: eval_defs m i)
  ultimately show ?thesis by (simp add: t)
qed

text \<open>
  Claim C3, amended. The spans and the spread are those the function computes, in
  binary64 arithmetic. Whenever at least one valid pair is found: a latitude span of
  exactly 1.0 with a longitude span of exactly 0.4 gives zoom 10; every spread above
  0.5 and at most 1 gives zoom 10; a spread of exactly 0.6 gives zoom 10 and a spread
  of exactly 1.5 gives zoom 9.
\<close>

theorem zoom_at_the_thresholds:
  assumes "list_all wf_feature fs" and "valid_points fs \<noteq> []"
  shows "\<exists>v. calculateBounds (JArr fs) = Inr (Some v) \<and>
           (lat_span (valid_points fs) = Fin 1 \<and> lng_span (valid_points fs) = literal 0.4 \<longrightarrow>
              zoom v = 10) \<and>
           (js_gt (spread (valid_points fs)) (literal 0.5) \<and>
            js_le (spread (valid_points fs)) (Fin 1) \<longrightarrow> zoom v = 10) \<and>
           (spread (valid_points fs) = literal 0.6 \<longrightarrow> zoom v = 10) \<and>
           (spread (valid_points fs) = Fin 1.5 \<longrightarrow> zoom v = 9)"
proof -
  let ?s = "spread (valid_points fs)"
  obtain t4 where t4: "literal (2 / 5) = Fin t4" and "\<bar>t4 - 2 / 5\<bar> \<le> 1 / 1000000"
    by (rule literal_close [of "2 / 5"]) simp_all
  then have b4: "t4 < 1" by linarith
  obtain t6 where t6: "literal (3 / 5) = Fin t6" and "\<bar>t6 - 3 / 5\<bar> \<le> 1 / 1000000"
    by (rule literal_close [of "3 / 5"]) simp_all
  then have b6: "1 / 2 < t6" "t6 \<le> 1" by linarith+
  have "lat_span (valid_points fs) = Fin 1 \<and> lng_span (valid_points fs) = literal 0.4 \<longrightarrow>
        zoomLevel ?s = 10"
    using b4 by (simp add: spread_def t4 Math_max_Fin zoomLevel_Fin)
  moreover have "js_gt ?s (literal 0.5) \<and> js_le ?s (Fin 1) \<longrightarrow> zoomLevel ?s = 10"
    by (cases ?s) (simp_all add: literal_half js_gt_def js_le_def isNaN_def zoomLevel_Fin)
  moreover have "?s = literal 0.6 \<longrightarrow> zoomLevel ?s = 10"
    using b6 by (simp add: t6 zoomLevel_Fin)
  moreover have "?s = Fin 1.5 \<longrightarrow> zoomLevel ?s = 9"
    by (simp add: zoomLevel_Fin)
  ultimately show ?thesis
    using calculateBounds_points [OF assms] by simp
qed

text \<open>
  Instances: spans of 1.0 by 0.4, a spread of exactly 0.6 (the longitudes 0 and 0.6),
  and a spread of exactly 1.5.
\<close>

theorem zoom_at_the_thresholds_witness:
  "(\<exists>v. calculateBounds (JArr [polygon [[pair 0 33]],
                                polygon [[JArr [JNum (literal 0.4), JNum (Fin 34)]]]]) =
          Inr (Some v) \<and> zoom v = 10) \<and>
   (\<exists>v. calculateBounds (JArr [polygon [[pair 0 0, JArr [JNum (literal 0.6), JNum (Fin 0.5)]]]]) =
          Inr (Some v) \<and> zoom v = 10) \<and>
   (\<exists>v. calculateBounds (JArr [polygon [[pair 0 0, pair 1.5 1]]]) =
          Inr (Some v) \<and> zoom v = 9)"
proof -
  obtain t4 where t4: "literal (2 / 5) = Fin t4" and "\<bar>t4 - 2 / 5\<bar> \<le> 1 / 1000000"
    by (rule literal_close [of "2 / 5"]) simp_all
  then have b4: "0 < t4" "t4 < 1" by linarith+
  have i4: "round64 t4 = Fin t4" using t4 by (rule literal_idem)
  obtain t6 where t6: "literal (3 / 5) = Fin t6" and "\<bar>t6 - 3 / 5\<bar> \<le> 1 / 1000000"
    by (rule literal_close [of "3 / 5"]) simp_all
  then have b6: "1 / 2 < t6" "t6 < 1" by linarith+
  have i6: "round64 t6 = Fin t6" using t6 by (rule literal_idem)
  let ?a = "[polygon [[pair 0 33]], polygon [[JArr [JNum (Fin t4), JNum (Fin 34)]]]]"
  let ?b = "[polygon [[pair 0 0, JArr [JNum (Fin t6), JNum (Fin 0.5)]]]]"
  let ?c = "[polygon [[pair 0 0, pair 1.5 1]]]"
  have wfa: "list_all wf_feature ?a" and wfb: "list_all wf_feature ?b"
    and wfc: "list_all wf_feature ?c"
    by (simp_all add: example_defs)
  have pa: "valid_points ?a = [(0, 33), (t4, 34)]"
    and pb: "valid_points ?b = [(0, 0), (t6, 1 / 2)]"
    using b4 b6 by (simp_all add: example_defs)
  have pc: "valid_points ?c = [(0, 0), (3 / 2, 1)]"
    by (simp add: example_defs)
  have nea: "valid_points ?a \<noteq> []" and neb: "valid_points ?b \<noteq> []"
    and nec: "valid_points ?c \<noteq> []"
    unfolding pa pb pc by simp_all
  have m4: "min 0 t4 = 0" "max 0 t4 = t4" using b4 by simp_all
  have m6: "min 0 t6 = 0" "max 0 t6 = t6" "max (1 / 2) t6 = t6" using b6 by simp_all
  have sa: "lat_span (valid_points ?a) = Fin 1 \<and> lng_span (valid_points ?a) = literal 0.4"
    unfolding pa by (simp add: eval_defs m4 i4 t4)
  have sb: "spread (valid_points ?b) = literal 0.6"
    unfolding pb by (simp add: eval_defs m6 i6 t6)
  have sc: "spread (valid_points ?c) = Fin 1.5"
    unfolding pc by (simp add: eval_defs)
  from zoom_at_the_thresholds [OF wfa nea] sa
  have "\<exists>v. calculateBounds (JArr ?a) = Inr (Some v) \<and> zoom v = 10" by blast
  moreover from zoom_at_the_thresholds [OF wfb neb] sb
  have "\<exists>v. calculateBounds (JArr ?b) = Inr (Some v) \<and> zoom v = 10" by blast
  moreover from zoom_at_the_thresholds [OF wfc nec] sc
  have "\<exists>v. calculateBounds (JArr ?c) = Inr (Some v) \<and> zoom v = 9" by blast
  ultimately show ?thesis by (simp add: t4 t6)
qed

text \<open>
  Claim C4. When at least one valid coordinate pair is found, the center is
  \<open>(min + max) / 2\<close> on each axis over the valid pairs, and the zoom is read off the
  descending ladder at the larger of \<open>maxLat - minLat\<close> and \<open>maxLng - minLng\<close>, with
  strict comparisons. The sums, differences and quotients are the program's, each
  rounded to binary64, and the thresholds are the binary64 values of the literals.
\<close>

theorem center_and_zoom_of_valid_pairs:
  assumes "list_all wf_feature fs" and "valid_points fs \<noteq> []"
  shows "calculateBounds (JArr fs) =
         Inr (Some
           \<lparr>longitude = js_div (js_add (Fin (min_lng (valid_points fs)))
                                       (Fin (max_lng (valid_points fs)))) (Fin 2),
            latitude = js_div (js_add (Fin (min_lat (valid_points fs)))
                                      (Fin (max_lat (valid_points fs)))) (Fin 2),
            zoom =
              (let s = Math_max (js_sub (Fin (max_lat (valid_points fs)))
                                        (Fin (min_lat (valid_points fs))))
                                (js_sub (Fin (max_lng (valid_points fs)))
                                        (Fin (min_lng (valid_points fs))))
               in if js_gt s (Fin 3) then 7
                  else if js_gt s (Fin 2) then 8
                  else if js_gt s (Fin 1) then 9
                  else if js_gt s (literal 0.5) then 10
                  else if js_gt s (literal 0.2) then 11
                  else if js_gt s (literal 0.1) then 12
                  else if js_gt s (literal 0.05) then 13
                  else 14)\<rparr>)"
  using calculateBounds_points [OF assms]
  unfolding spread_def lat_span_def lng_span_def zoomLevel_def Let_def .

text \<open>
  An instance with an out-of-range pair: the center is (33.5, -96) and the spread is
  exactly 2, which is not above 2, so the zoom is 9.
\<close>

theorem center_and_zoom_of_valid_pairs_witness:
  "list_all wf_feature
     [polygon [[pair (- 97) 33, pair (- 96) 34]], polygon [[pair (- 95) 33, pair 200 10]]] \<and>
   valid_points
     [polygon [[pair (- 97) 33, pair (- 96) 34]], polygon [[pair (- 95) 33, pair 200 10]]] \<noteq> [] \<and>
   calculateBounds (JArr
     [polygon [[pair (- 97) 33, pair (- 96) 34]], polygon [[pair (- 95) 33, pair 200 10]]]) =
     Inr (Some \<lparr>longitude = Fin (- 96), latitude = Fin 33.5, zoom = 9\<rparr>)"
proof -
  let ?fs = "[polygon [[pair (- 97) 33, pair (- 96) 34]], polygon [[pair (- 95) 33, pair 200 10]]]"
  have wf: "list_all wf_feature ?fs" by (simp add: example_defs)
  have ps: "valid_points ?fs = [(- 97, 33), (- 96, 34), (- 95, 33)]"
    by (simp add: example_defs)
  have ne: "valid_points ?fs \<noteq> []" unfolding ps by simp
  from center_and_zoom_of_valid_pairs [OF wf ne]
  have "calculateBounds (JArr ?fs) =
        Inr (Some \<lparr>longitude = Fin (- 96), latitude = Fin 33.5, zoom = 9\<rparr>)"
    unfolding ps zoomLevel_def [symmetric, unfolded Let_def]
    by (simp add: eval_defs Let_def)
  with wf ne show ?thesis by blast
qed

text \<open>
  Claim C6. Whatever the argument, the zoom of a returned view is one of
  7, 8, 9, 10, 11, 12, 13, 14.
\<close>

theorem zoom_in_discrete_set:
  assumes "calculateBounds x = Inr (Some v)"
  shows "zoom v \<in> {7, 8, 9, 10, 11, 12, 13, 14}"
proof -
  from assms obtain acc where "v = view_of_acc acc"
    by (auto simp: calculateBounds_def split: if_splits sum.splits)
  moreover have "zoomLevel m \<in> {7, 8, 9, 10, 11, 12, 13, 14}" for m
    by (simp add: zoomLevel_def)
  ultimately show ?thesis
    by (simp add: view_of_acc_def Let_def default_view_def)
qed

text \<open>An instance with a spread of 3, which is not above 3: zoom 8.\<close>

theorem zoom_in_discrete_set_witness:
  "calculateBounds (JArr [polygon [[pair (- 97) 30, pair (- 94.5) 33]]]) =
     Inr (Some \<lparr>longitude = Fin (- 95.75), latitude = Fin 31.5, zoom = 8\<rparr>) \<and>
   zoom \<lparr>longitude = Fin (- 95.75), latitude = Fin 31.5, zoom = 8\<rparr> \<in> {7, 8, 9, 10, 11, 12, 13, 14}"
proof -
  let ?fs = "[polygon [[pair (- 97) 30, pair (- 94.5) 33]]]"
  have wf: "list_all wf_feature ?fs" by (simp add: example_defs)
  have ps: "valid_points ?fs = [(- 97, 30), (- 94.5, 33)]" by (simp add: example_defs)
  have ne: "valid_points ?fs \<noteq> []" unfolding ps by simp
  have h: "calculateBounds (JArr ?fs) =
           Inr (Some \<lparr>longitude = Fin (- 95.75), latitude = Fin 31.5, zoom = 8\<rparr>)"
    using calculateBounds_points [OF wf ne] unfolding ps by (simp add: eval_defs)
  from h zoom_in_discrete_set [OF h] show ?thesis by blast
qed

section \<open>Removing the invalid pairs\<close>

lemma truthy_field_obj:
  assumes "truthy (field v k)" and "k \<noteq> ''length''"
  obtains ps where "v = JObj ps"
  using assms by (cases v) (simp_all add: field_def truthy_def)

lemma field_set_field: "field (set_field (JObj ps) k x) k = x"
  by (simp add: set_field_def field_def update_conv')

lemma drop_invalid_rings:
  assumes "has_coordinates f"
  shows "has_coordinates (drop_invalid f) \<and>
         rings_of (drop_invalid f) = JArr (map drop_invalid_ring (elems (rings_of f))) \<and>
         \<not> nullish (drop_invalid f)"
proof -
  from assms have c: "truthy (field (field f ''geometry'') ''coordinates'')"
    and g: "truthy (field f ''geometry'')"
    by (simp_all add: has_coordinates_def)
  from c obtain gs where gs: "field f ''geometry'' = JObj gs"
    by (rule truthy_field_obj) simp
  from g obtain ps where ps: "f = JObj ps"
    by (rule truthy_field_obj) simp
  define rs where "rs = map drop_invalid_ring (elems (rings_of f))"
  have d: "drop_invalid f =
           set_field (JObj ps) ''geometry'' (set_field (JObj gs) ''coordinates'' (JArr rs))"
    using assms gs ps by (simp add: drop_invalid_def rs_def)
  have fg: "field (drop_invalid f) ''geometry'' = set_field (JObj gs) ''coordinates'' (JArr rs)"
    unfolding d by (rule field_set_field)
  have fc: "field (field (drop_invalid f) ''geometry'') ''coordinates'' = JArr rs"
    unfolding fg by (rule field_set_field)
  have tg: "truthy (field (drop_invalid f) ''geometry'')"
    unfolding fg by (simp add: set_field_def truthy_def)
  have hc: "has_coordinates (drop_invalid f)"
    unfolding has_coordinates_def fc using tg by (simp add: truthy_def)
  have ro: "rings_of (drop_invalid f) = JArr rs"
    unfolding rings_of_def by (rule fc)
  have nn: "\<not> nullish (drop_invalid f)"
    unfolding d by (simp add: set_field_def nullish_def)
  from hc ro nn show ?thesis unfolding rs_def by blast
qed

lemma drop_invalid_unchanged: "\<not> has_coordinates f \<Longrightarrow> drop_invalid f = f"
  by (simp add: drop_invalid_def)

lemma elems_drop_invalid_ring: "elems (drop_invalid_ring r) = filter valid_coord (elems r)"
  by (cases r) (simp_all add: drop_invalid_ring_def elems_def)

lemma feature_coords_drop_invalid:
  "feature_coords (drop_invalid f) = filter valid_coord (feature_coords f)"
proof (cases "has_coordinates f")
  case True
  from drop_invalid_rings [OF True] True show ?thesis
    by (simp add: feature_coords_def elems_def [of "JArr _"] filter_concat comp_def
        elems_drop_invalid_ring)
next
  case False
  then show ?thesis by (simp add: drop_invalid_unchanged feature_coords_def)
qed

lemma all_coords_drop_invalid:
  "all_coords (map drop_invalid fs) = filter valid_coord (all_coords fs)"
  by (simp add: all_coords_def filter_concat comp_def feature_coords_drop_invalid)

lemma wf_ring_drop_invalid: "wf_ring r \<Longrightarrow> wf_ring (drop_invalid_ring r)"
  by (cases r) (simp_all add: wf_ring_def is_array_def drop_invalid_ring_def elems_def list_all_iff)

lemma wf_feature_drop_invalid:
  assumes "wf_feature f"
  shows "wf_feature (drop_invalid f)"
proof (cases "has_coordinates f")
  case True
  with assms have "list_all wf_ring (elems (rings_of f))" by (simp add: wf_feature_def)
  then have "list_all wf_ring (map drop_invalid_ring (elems (rings_of f)))"
    by (simp add: list_all_iff wf_ring_drop_invalid)
  with drop_invalid_rings [OF True] show ?thesis
    by (simp add: wf_feature_def is_array_def elems_def [of "JArr _"])
next
  case False
  with assms show ?thesis by (simp add: drop_invalid_unchanged)
qed

lemma map_filter_valid: "List.map_filter coord_point (filter valid_coord cs) = List.map_filter coord_point cs"
  by (induction cs) (auto simp: valid_coord_def split: option.splits)

lemma valid_points_drop_invalid: "valid_points (map drop_invalid fs) = valid_points fs"
  by (simp add: valid_points_def all_coords_drop_invalid map_filter_valid)

text \<open>
  Claim C5. On every feature sequence of the shape of the data model the scan does
  not fail and leaves the accumulator that the valid pairs alone produce: the minimum
  and maximum of their latitudes and longitudes. Removing the invalid pairs from the
  rings leaves the result of the function unchanged.
\<close>

theorem only_valid_pairs_accumulate:
  assumes "list_all wf_feature fs"
  shows "array_forEach (JArr fs) visit_feature init_acc =
           Inr (fold add_point (valid_points fs) init_acc) \<and>
         (valid_points fs \<noteq> [] \<longrightarrow>
            fold add_point (valid_points fs) init_acc =
              \<lparr>minLat = Fin (min_lat (valid_points fs)), maxLat = Fin (max_lat (valid_points fs)),
               minLng = Fin (min_lng (valid_points fs)), maxLng = Fin (max_lng (valid_points fs)),
               hasValidCoords = True\<rparr>) \<and>
         all_coords (map drop_invalid fs) = filter valid_coord (all_coords fs) \<and>
         calculateBounds (JArr (map drop_invalid fs)) = calculateBounds (JArr fs)"
proof -
  have "list_all wf_feature (map drop_invalid fs)"
    using assms by (simp add: list_all_iff wf_feature_drop_invalid)
  then have "calculateBounds (JArr (map drop_invalid fs)) = calculateBounds (JArr fs)"
    using assms by (simp add: calculateBounds_array visit_features_wf valid_points_drop_invalid)
  with assms show ?thesis
    by (simp add: array_forEach_def visit_features_wf fold_add_point_init all_coords_drop_invalid)
qed

text \<open>
  An instance: a ring with two valid pairs and one of latitude 95 gives the same
  result as the ring without that pair.
\<close>

theorem only_valid_pairs_accumulate_witness:
  "list_all wf_feature [polygon [[pair (- 97) 33, pair (- 96) 95, pair (- 96.5) 33.5]]] \<and>
   map drop_invalid [polygon [[pair (- 97) 33, pair (- 96) 95, pair (- 96.5) 33.5]]] =
     [polygon [[pair (- 97) 33, pair (- 96.5) 33.5]]] \<and>
   calculateBounds (JArr [polygon [[pair (- 97) 33, pair (- 96.5) 33.5]]]) =
     calculateBounds (JArr [polygon [[pair (- 97) 33, pair (- 96) 95, pair (- 96.5) 33.5]]])"
proof -
  let ?fs = "[polygon [[pair (- 97) 33, pair (- 96) 95, pair (- 96.5) 33.5]]]"
  have wf: "list_all wf_feature ?fs" by (simp add: example_defs)
  have d: "map drop_invalid ?fs = [polygon [[pair (- 97) 33, pair (- 96.5) 33.5]]]"
    by (simp add: drop_invalid_def drop_invalid_ring_def set_field_def example_defs)
  from only_valid_pairs_accumulate [OF wf] wf d show ?thesis by simp
qed

section \<open>The filter on last_edited\<close>

lemma keep_feature_truthy:
  assumes "\<not> nullish f"
  shows "\<exists>r. keep_feature f = Inr r \<and> truthy r = has_last_edited f"
  using assms by (simp add: keep_feature_def get_prop_def has_last_edited_def)

lemma js_filter_keep_feature:
  assumes "list_all (\<lambda>f. \<not> nullish f) fs"
  shows "js_filter fs keep_feature = Inr (filter has_last_edited fs)"
  using assms
proof (induction fs)
  case Nil
  show ?case by simp
next
  case (Cons f fs)
  from Cons.prems have "\<not> nullish f" by simp
  from keep_feature_truthy [OF this] obtain r
    where "keep_feature f = Inr r" and "truthy r = has_last_edited f" by blast
  moreover from Cons have "js_filter fs keep_feature = Inr (filter has_last_edited fs)" by simp
  ultimately show ?case by simp
qed

lemma field_spread_with: "field (spread_with data k x) k = x"
  by (cases data) (simp_all add: spread_with_def field_def update_conv')

lemma geojson_loaded_filtered:
  assumes "field data ''features'' = JArr fs" and "list_all (\<lambda>f. \<not> nullish f) fs"
  shows "geojson_loaded bounds data st =
         (case bounds (JArr (filter has_last_edited fs)) of
            Inl e \<Rightarrow> st
          | Inr None \<Rightarrow>
              st\<lparr>geoJsonData := spread_with data ''features'' (JArr (filter has_last_edited fs))\<rparr>
          | Inr (Some mv) \<Rightarrow>
              st\<lparr>mapView := mv,
                 geoJsonData := spread_with data ''features'' (JArr (filter has_last_edited fs))\<rparr>)"
proof -
  from assms(1) have "\<not> nullish data"
    by (cases data) (simp_all add: nullish_def field_def)
  then have "get_prop data ''features'' = Inr (JArr fs)"
    by (simp add: get_prop_def assms(1))
  moreover have "array_filter (JArr fs) keep_feature = Inr (JArr (filter has_last_edited fs))"
    by (simp add: array_filter_def js_filter_keep_feature [OF assms(2)])
  ultimately show ?thesis
    by (simp add: geojson_loaded_def field_spread_with Let_def)
qed

text \<open>
  Claim C9. When the loaded collection holds an array of features, the handler keeps
  exactly the features whose properties exist and hold a truthy \<open>last_edited\<close>, stores
  the collection with that array, and applies the bounds function to that array:
  running the handler on the collection already filtered gives the same state, so the
  features without \<open>last_edited\<close> contribute nothing. The Leaflet version of the
  handler is the same with its own bounds function.
\<close>

theorem bounds_of_filtered_features:
  assumes "field data ''features'' = JArr fs" and "list_all (\<lambda>f. \<not> nullish f) fs"
  shows "geojson_loaded calculateBounds data st =
           (case calculateBounds (JArr (filter has_last_edited fs)) of
              Inl e \<Rightarrow> st
            | Inr None \<Rightarrow>
                st\<lparr>geoJsonData := spread_with data ''features'' (JArr (filter has_last_edited fs))\<rparr>
            | Inr (Some mv) \<Rightarrow>
                st\<lparr>mapView := mv,
                   geoJsonData := spread_with data ''features'' (JArr (filter has_last_edited fs))\<rparr>) \<and>
         geojson_loaded calculateBounds
             (spread_with data ''features'' (JArr (filter has_last_edited fs))) st =
           geojson_loaded calculateBounds data st \<and>
         geojson_loaded (calculateBounds_leaflet coerce)
             (spread_with data ''features'' (JArr (filter has_last_edited fs))) st' =
           geojson_loaded (calculateBounds_leaflet coerce) data st'"
proof -
  let ?kept = "filter has_last_edited fs"
  let ?fd = "spread_with data ''features'' (JArr ?kept)"
  have 1: "field ?fd ''features'' = JArr ?kept" by (rule field_spread_with)
  have 2: "list_all (\<lambda>f. \<not> nullish f) ?kept" using assms(2) by (simp add: list_all_iff)
  from assms(1) obtain ps where ps: "data = JObj ps"
    by (cases data) (simp_all add: field_def split: if_splits)
  have 3: "filter has_last_edited ?kept = ?kept" by simp
  have 4: "spread_with ?fd ''features'' (JArr ?kept) = ?fd"
    by (simp add: ps spread_with_def)
  have "geojson_loaded calculateBounds ?fd st = geojson_loaded calculateBounds data st"
    unfolding geojson_loaded_filtered [OF assms] geojson_loaded_filtered [OF 1 2] 3 4 ..
  moreover have "geojson_loaded (calculateBounds_leaflet coerce) ?fd st' =
                 geojson_loaded (calculateBounds_leaflet coerce) data st'"
    unfolding geojson_loaded_filtered [OF assms] geojson_loaded_filtered [OF 1 2] 3 4 ..
  ultimately show ?thesis
    by (simp add: geojson_loaded_filtered [OF assms])
qed

text \<open>
  An instance: of three cities only the first has \<open>last_edited\<close>, and the view is
  the one of its polygon alone.
\<close>

theorem bounds_of_filtered_features_witness:
  "field (JObj [(''type'', JStr ''FeatureCollection''),
                (''features'', JArr
                  [city (JObj [(''CITY_NM'', JStr ''Plano''), (''last_edited'', JStr ''2024-01-01'')])
                     [[pair (- 97) 33, pair (- 96) 34]],
                   city (JObj [(''CITY_NM'', JStr ''Frisco'')]) [[pair (- 90) 40]],
                   city JNull [[pair 0 0]]])]) ''features'' =
     JArr [city (JObj [(''CITY_NM'', JStr ''Plano''), (''last_edited'', JStr ''2024-01-01'')])
             [[pair (- 97) 33, pair (- 96) 34]],
           city (JObj [(''CITY_NM'', JStr ''Frisco'')]) [[pair (- 90) 40]],
           city JNull [[pair 0 0]]] \<and>
   list_all (\<lambda>f. \<not> nullish f)
     [city (JObj [(''CITY_NM'', JStr ''Plano''), (''last_edited'', JStr ''2024-01-01'')])
        [[pair (- 97) 33, pair (- 96) 34]],
      city (JObj [(''CITY_NM'', JStr ''Frisco'')]) [[pair (- 90) 40]],
      city JNull [[pair 0 0]]] \<and>
   mapView (geojson_loaded calculateBounds
     (JObj [(''type'', JStr ''FeatureCollection''),
            (''features'', JArr
              [city (JObj [(''CITY_NM'', JStr ''Plano''), (''last_edited'', JStr ''2024-01-01'')])
                 [[pair (- 97) 33, pair (- 96) 34]],
               city (JObj [(''CITY_NM'', JStr ''Frisco'')]) [[pair (- 90) 40]],
               city JNull [[pair 0 0]]])])
     initial_dashboard) =
     \<lparr>longitude = Fin (- 96.5), latitude = Fin 33.5, zoom = 10\<rparr>"
proof -
  let ?plano = "city (JObj [(''CITY_NM'', JStr ''Plano''), (''last_edited'', JStr ''2024-01-01'')])
                  [[pair (- 97) 33, pair (- 96) 34]]"
  let ?fs = "[?plano, city (JObj [(''CITY_NM'', JStr ''Frisco'')]) [[pair (- 90) 40]],
              city JNull [[pair 0 0]]]"
  let ?data = "JObj [(''type'', JStr ''FeatureCollection''), (''features'', JArr ?fs)]"
  have f: "field ?data ''features'' = JArr ?fs" by (simp add: field_def)
  have nn: "list_all (\<lambda>f. \<not> nullish f) ?fs" by (simp add: nullish_def city_def)
  have k: "filter has_last_edited ?fs = [?plano]"
    by (simp add: has_last_edited_def city_def field_def truthy_def)
  have wf: "list_all wf_feature [?plano]" by (simp add: example_defs city_def)
  have ps: "valid_points [?plano] = [(- 97, 33), (- 96, 34)]" by (simp add: example_defs city_def)
  have ne: "valid_points [?plano] \<noteq> []" unfolding ps by simp
  have v: "calculateBounds (JArr [?plano]) =
           Inr (Some \<lparr>longitude = Fin (- 96.5), latitude = Fin 33.5, zoom = 10\<rparr>)"
    using calculateBounds_points [OF wf ne] unfolding ps by (simp add: eval_defs)
  from bounds_of_filtered_features [OF f nn, of initial_dashboard]
  have "mapView (geojson_loaded calculateBounds ?data initial_dashboard) =
        \<lparr>longitude = Fin (- 96.5), latitude = Fin 33.5, zoom = 10\<rparr>"
    unfolding k v by simp
  with f nn show ?thesis by blast
qed

section \<open>The two versions of calculateBounds\<close>

lemma forEach_rel:
  assumes "\<And>s t x. x \<in> set xs \<Longrightarrow> R s t \<Longrightarrow> rel_sum (=) R (f s x) (g t x)" and "R s t"
  shows "rel_sum (=) R (forEach xs f s) (forEach xs g t)"
  using assms
proof (induction xs arbitrary: s t)
  case Nil
  then show ?case by simp
next
  case (Cons x xs)
  from Cons.prems have step: "rel_sum (=) R (f s x) (g t x)" by simp
  show ?case
  proof (cases "f s x")
    case (Inl e)
    with step show ?thesis by (cases "g t x") simp_all
  next
    case (Inr s')
    with step obtain t' where t': "g t x = Inr t'" and "R s' t'" by (cases "g t x") simp_all
    then have "rel_sum (=) R (forEach xs f s') (forEach xs g t')"
      by (intro Cons.IH) (simp_all add: Cons.prems(1))
    with Inr t' show ?thesis by simp
  qed
qed

lemma array_forEach_rel:
  assumes "\<And>s t x. x \<in> set (elems v) \<Longrightarrow> R s t \<Longrightarrow> rel_sum (=) R (f s x) (g t x)" and "R s t"
  shows "rel_sum (=) R (array_forEach v f s) (array_forEach v g t)"
proof (cases v)
  case (JArr xs)
  with assms show ?thesis
    by (simp add: array_forEach_def elems_def forEach_rel)
qed (simp_all add: array_forEach_def)

lemma visit_coord_rel:
  assumes "valid_coord c" and "same_extent ext acc"
  shows "rel_sum (=) same_extent (visit_coord_leaflet coerce ext c) (visit_coord acc c)"
proof -
  from assms(1) obtain lng lat rest where c: "c = JArr (JNum (Fin lng) # JNum (Fin lat) # rest)"
    and p: "coord_point c = Some (lng, lat)"
    by (auto simp: valid_coord_def coord_point_def split: jsval.splits list.splits jsnum.splits if_splits)
  have "visit_coord acc c = Inr (add_point (lng, lat) acc)"
    by (simp add: c visit_coord_array p [unfolded c])
  moreover have "visit_coord_leaflet coerce ext c =
      Inr (ext\<lparr>minLat := Math_min (minLat ext) (Fin lat), maxLat := Math_max (maxLat ext) (Fin lat),
               minLng := Math_min (minLng ext) (Fin lng), maxLng := Math_max (maxLng ext) (Fin lng)\<rparr>)"
    by (simp add: c visit_coord_leaflet_def iterate_def nth_or_undefined_def ToNumber_def)
  ultimately show ?thesis
    using assms(2) by (simp add: same_extent_def add_point_def)
qed

lemma visit_ring_rel:
  assumes "list_all valid_coord (elems r)" and "same_extent ext acc"
  shows "rel_sum (=) same_extent (visit_ring_leaflet coerce ext r) (visit_ring acc r)"
  unfolding visit_ring_leaflet_def visit_ring_def
  by (rule array_forEach_rel) (use assms in \<open>simp_all add: list_all_iff visit_coord_rel\<close>)

lemma visit_feature_rel:
  assumes "list_all valid_coord (feature_coords f)" and "same_extent ext acc"
  shows "rel_sum (=) same_extent (visit_feature_leaflet coerce ext f) (visit_feature acc f)"
proof (cases "\<not> nullish f \<and> has_coordinates f")
  case True
  with assms(1) have "\<And>r. r \<in> set (elems (rings_of f)) \<Longrightarrow> list_all valid_coord (elems r)"
    by (simp add: feature_coords_def list_all_iff)
  then have "rel_sum (=) same_extent
      (array_forEach (rings_of f) (visit_ring_leaflet coerce) ext)
      (array_forEach (rings_of f) visit_ring acc)"
    by (intro array_forEach_rel visit_ring_rel assms(2))
  with True show ?thesis
    by (simp add: visit_feature_leaflet_def visit_feature_def get_prop_def has_coordinates_def
        rings_of_def)
next
  case False
  with assms(2) show ?thesis
    by (auto simp: visit_feature_leaflet_def visit_feature_def get_prop_def has_coordinates_def)
qed

lemma visit_features_rel:
  assumes "list_all valid_coord (all_coords fs)" and "same_extent ext acc"
  shows "rel_sum (=) same_extent
           (forEach fs (visit_feature_leaflet coerce) ext) (forEach fs visit_feature acc)"
  by (rule forEach_rel) (use assms in \<open>simp_all add: all_coords_def list_all_iff visit_feature_rel\<close>)

lemma calculateBounds_leaflet_array:
  "calculateBounds_leaflet coerce (JArr fs) =
     (if fs = [] then Inr None
      else case forEach fs (visit_feature_leaflet coerce) init_extent of
             Inl e \<Rightarrow> Inl e
           | Inr ext \<Rightarrow> Inr (Some (view_of_extent ext)))"
  by (simp add: calculateBounds_leaflet_def truthy_def field_def strict_eq_num_def num_eq_def
      isNaN_def array_forEach_def)

lemma map_filter_all_valid:
  "list_all valid_coord cs \<Longrightarrow> cs \<noteq> [] \<Longrightarrow> List.map_filter coord_point cs \<noteq> []"
  by (cases cs) (auto simp: valid_coord_def)

text \<open>
  Claim C10, as stated, at a non-empty sequence whose only feature has no coordinate
  pair at all, so that every pair is valid: the Leaflet version returns the center
  [NaN, NaN] with zoom 14, the Mapbox version the fallback with zoom 9.
\<close>

theorem versions_differ_without_coordinates:
  "list_all wf_feature [polygon []] \<and> list_all valid_coord (all_coords [polygon []]) \<and>
   calculateBounds_leaflet nan_coerce (JArr [polygon []]) =
     Inr (Some \<lparr>center = (NaN, NaN), leaflet_zoom = 14\<rparr>) \<and>
   calculateBounds (JArr [polygon []]) =
     Inr (Some \<lparr>longitude = literal (- 96.7970), latitude = literal 32.9750, zoom = 9\<rparr>)"
proof -
  have wf: "list_all wf_feature [polygon []]" by (simp add: example_defs)
  have ac: "all_coords [polygon []] = []" by (simp add: example_defs)
  have "calculateBounds_leaflet nan_coerce (JArr [polygon []]) =
        Inr (Some \<lparr>center = (NaN, NaN), leaflet_zoom = 14\<rparr>)"
    by (simp add: calculateBounds_leaflet_array visit_feature_leaflet_def get_prop_def
        array_forEach_def view_of_extent_def init_extent_def js_sub_def Math_max_def
        zoomLevel_NegInf example_defs)
  moreover have "calculateBounds (JArr [polygon []]) = Inr (Some default_view)"
    using wf by (rule calculateBounds_no_points) (simp_all add: valid_points_def ac)
  ultimately show ?thesis using wf by (simp add: ac default_view_def)
qed

text \<open>
  Claim C10, amended. On every feature sequence of the shape of the data model that
  holds at least one coordinate pair and whose coordinate pairs are all valid, the two
  versions return the same center latitude, the same center longitude and the same
  zoom, whatever the runtime's conversion of non-numbers.
\<close>

theorem versions_agree_on_valid_coordinates:
  assumes "list_all wf_feature fs" and "all_coords fs \<noteq> []"
    and "list_all valid_coord (all_coords fs)"
  shows "\<exists>lat lng z.
           calculateBounds_leaflet coerce (JArr fs) =
             Inr (Some \<lparr>center = (lat, lng), leaflet_zoom = z\<rparr>) \<and>
           calculateBounds (JArr fs) =
             Inr (Some \<lparr>longitude = lng, latitude = lat, zoom = z\<rparr>)"
proof -
  let ?ps = "valid_points fs"
  from assms(2,3) have ne: "?ps \<noteq> []"
    by (simp add: valid_points_def map_filter_all_valid)
  from assms(2) have fs: "fs \<noteq> []" by (auto simp: all_coords_def)
  let ?acc = "\<lparr>minLat = Fin (min_lat ?ps), maxLat = Fin (max_lat ?ps),
               minLng = Fin (min_lng ?ps), maxLng = Fin (max_lng ?ps), hasValidCoords = True\<rparr>"
  have run: "forEach fs visit_feature init_acc = Inr ?acc"
    by (simp add: visit_features_wf [OF assms(1)] fold_add_point_init [OF ne])
  have "same_extent init_extent init_acc"
    by (simp add: same_extent_def init_extent_def init_acc_def)
  with assms(3) have "rel_sum (=) same_extent
      (forEach fs (visit_feature_leaflet coerce) init_extent) (forEach fs visit_feature init_acc)"
    by (rule visit_features_rel)
  with run obtain ext where ext: "forEach fs (visit_feature_leaflet coerce) init_extent = Inr ext"
    and same: "same_extent ext ?acc"
    by (cases "forEach fs (visit_feature_leaflet coerce) init_extent") simp_all
  from same have "view_of_extent ext =
      \<lparr>center = (js_div (js_add (Fin (min_lat ?ps)) (Fin (max_lat ?ps))) (Fin 2),
                 js_div (js_add (Fin (min_lng ?ps)) (Fin (max_lng ?ps))) (Fin 2)),
       leaflet_zoom = zoomLevel (spread ?ps)\<rparr>"
    by (simp add: same_extent_def view_of_extent_def spread_def lat_span_def lng_span_def Let_def)
  with fs ext have "calculateBounds_leaflet coerce (JArr fs) =
      Inr (Some \<lparr>center = (js_div (js_add (Fin (min_lat ?ps)) (Fin (max_lat ?ps))) (Fin 2),
                            js_div (js_add (Fin (min_lng ?ps)) (Fin (max_lng ?ps))) (Fin 2)),
                 leaflet_zoom = zoomLevel (spread ?ps)\<rparr>)"
    by (simp add: calculateBounds_leaflet_array)
  moreover note calculateBounds_points [OF assms(1) ne]
  ultimately show ?thesis by blast
qed

text \<open>An instance: two polygons with three valid pairs.\<close>

theorem versions_agree_on_valid_coordinates_witness:
  "list_all wf_feature [polygon [[pair (- 97) 33, pair (- 96) 35.5]], polygon [[pair (- 96.5) 32]]] \<and>
   all_coords [polygon [[pair (- 97) 33, pair (- 96) 35.5]], polygon [[pair (- 96.5) 32]]] \<noteq> [] \<and>
   list_all valid_coord
     (all_coords [polygon [[pair (- 97) 33, pair (- 96) 35.5]], polygon [[pair (- 96.5) 32]]]) \<and>
   (\<exists>lat lng z.
      calculateBounds_leaflet nan_coerce
          (JArr [polygon [[pair (- 97) 33, pair (- 96) 35.5]], polygon [[pair (- 96.5) 32]]]) =
        Inr (Some \<lparr>center = (lat, lng), leaflet_zoom = z\<rparr>) \<and>
      calculateBounds
          (JArr [polygon [[pair (- 97) 33, pair (- 96) 35.5]], polygon [[pair (- 96.5) 32]]]) =
        Inr (Some \<lparr>longitude = lng, latitude = lat, zoom = z\<rparr>))"
proof -
  let ?fs = "[polygon [[pair (- 97) 33, pair (- 96) 35.5]], polygon [[pair (- 96.5) 32]]]"
  have wf: "list_all wf_feature ?fs" by (simp add: example_defs)
  have ac: "all_coords ?fs = [pair (- 97) 33, pair (- 96) 35.5, pair (- 96.5) 32]"
    by (simp add: example_defs)
  have ne: "all_coords ?fs \<noteq> []" unfolding ac by simp
  have va: "list_all valid_coord (all_coords ?fs)"
    unfolding ac by (simp add: valid_coord_def coord_point_def pair_def)
  from wf ne va versions_agree_on_valid_coordinates [OF wf ne va, of nan_coerce]
  show ?thesis by blast
qed

end
